theory Spec2Isabelle
  imports Complex_Main "HOL-Library.Sublist"
begin

section \<open>Arithmetic of the source\<close>

text \<open>
  Both programs compute with floating-point numbers. They are embedded over the reals:
  rounding, overflow and underflow are not part of the model. What is part of it is every
  place where the source can fail: a division raises \<open>ZeroDivisionError\<close> on a zero divisor
  and \<open>math.sqrt\<close> raises \<open>ValueError\<close> on a negative argument. In the shader, where a
  division by zero gives an undefined value instead of an exception, the same error value
  marks the undefined result.
\<close>

datatype error = ZeroDivisionError | ValueError

definition bind_err :: "error + 'a \<Rightarrow> ('a \<Rightarrow> error + 'b) \<Rightarrow> error + 'b" where
  "bind_err m f = (case m of Inl e \<Rightarrow> Inl e | Inr x \<Rightarrow> f x)"

definition py_div :: "real \<Rightarrow> real \<Rightarrow> error + real" where
  "py_div a b = (if b = 0 then Inl ZeroDivisionError else Inr (a / b))"

definition math_sqrt :: "real \<Rightarrow> error + real" where
  "math_sqrt x = (if x < 0 then Inl ValueError else Inr (sqrt x))"

section \<open>The ray-marcher (fragment shader of black\_hole\_raytracing.py)\<close>

type_synonym vec3 = "real \<times> real \<times> real"

definition MAX_STEPS :: nat where
  "MAX_STEPS = 80"

definition BH_RADIUS :: real where
  "BH_RADIUS = 1.0"

definition length3 :: "vec3 \<Rightarrow> real" where
  "length3 v = (case v of (x, y, z) \<Rightarrow> sqrt (x * x + y * y + z * z))"

definition scale3 :: "vec3 \<Rightarrow> real \<Rightarrow> vec3" where
  "scale3 v k = (case v of (x, y, z) \<Rightarrow> (x * k, y * k, z * k))"

definition add3 :: "vec3 \<Rightarrow> vec3 \<Rightarrow> vec3" where
  "add3 v w = (case v of (x, y, z) \<Rightarrow> case w of (a, b, c) \<Rightarrow> (x + a, y + b, z + c))"

definition neg3 :: "vec3 \<Rightarrow> vec3" where
  "neg3 v = (case v of (x, y, z) \<Rightarrow> (- x, - y, - z))"

definition normalize3 :: "vec3 \<Rightarrow> error + vec3" where
  "normalize3 v = (case v of (x, y, z) \<Rightarrow>
     bind_err (py_div x (length3 v)) (\<lambda>nx.
     bind_err (py_div y (length3 v)) (\<lambda>ny.
     bind_err (py_div z (length3 v)) (\<lambda>nz.
     Inr (nx, ny, nz)))))"

text \<open>Line 97: \<^verbatim>\<open>vec3 force = -normalize(pos) * (3.0 / (r * r));\<close>\<close>

definition gravity_force :: "vec3 \<Rightarrow> real \<Rightarrow> error + vec3" where
  "gravity_force pos r =
     bind_err (normalize3 pos) (\<lambda>n.
     bind_err (py_div 3.0 (r * r)) (\<lambda>k.
     Inr (scale3 (neg3 n) k)))"

text \<open>
  The physics loop, lines 88 to 104. The first argument counts the iterations that are
  left of \<open>MAX_STEPS\<close>; the result is the final \<open>(pos, dir, escaped)\<close>.
\<close>

fun march :: "nat \<Rightarrow> vec3 \<Rightarrow> vec3 \<Rightarrow> error + (vec3 \<times> vec3 \<times> bool)" where
  "march 0 pos dir = Inr (pos, dir, True)"
| "march (Suc n) pos dir =
     (let r = length3 pos in
      if r < BH_RADIUS then Inr (pos, dir, False)
      else
        let h = max 0.05 (r * 0.1) in
        bind_err (gravity_force pos r) (\<lambda>force.
        bind_err (normalize3 (add3 dir (scale3 force h))) (\<lambda>dir.
        let pos = add3 pos (scale3 dir h) in
        if r > 1000.0 then Inr (pos, dir, True)
        else march n pos dir)))"

definition physics_loop :: "vec3 \<Rightarrow> vec3 \<Rightarrow> error + (vec3 \<times> vec3 \<times> bool)" where
  "physics_loop ro rd = march MAX_STEPS ro rd"

section \<open>The particle integrator (sideview.py)\<close>

definition G :: real where
  "G = 1.0"

definition DT :: real where
  "DT = 0.5"

definition TRAIL_LENGTH :: nat where
  "TRAIL_LENGTH = 100"

definition SPAWN_RATE :: int where
  "SPAWN_RATE = 5"

definition WIDTH :: real where
  "WIDTH = 800"

record Photon =
  pos :: "real \<times> real"
  x_raw :: real
  y_raw :: real
  vel :: "real \<times> real"
  history :: "(real \<times> real) list"
  active :: bool
  is_kerr :: bool
  hole_spin :: real
  dead :: bool

text \<open>\<^verbatim>\<open>Photon.__init__(self, y, screen_width, is_kerr=False, hole_spin=0)\<close>\<close>

definition Photon_init :: "real \<Rightarrow> real \<Rightarrow> bool \<Rightarrow> real \<Rightarrow> Photon" where
  "Photon_init y screen_width kerr spin0 =
     \<lparr> pos = (0, y),
       x_raw = - screen_width / 2,
       y_raw = y,
       vel = (4.0, 0.0),
       history = [],
       active = True,
       is_kerr = kerr,
       hole_spin = spin0,
       dead = False \<rparr>"

text \<open>
  Lines 74 to 116 of \<open>Photon.update\<close>, the part under the comment \<^verbatim>\<open>PHYSICS ENGINE\<close>:
  from the mass, the particle and the values \<open>dx\<close>, \<open>dy\<close>, \<open>r2\<close>, \<open>r\<close> computed before it, the
  acceleration \<open>(ax, ay)\<close> that the integration step uses.

  The powers \<open>r ** 4\<close> and \<open>r ** 3\<close> are exact here. In the double precision arithmetic of
  the source they are rounded, and for a radius below about \<open>2 ^ -268\<close> the value of \<open>r ** 4\<close>
  is \<open>0.0\<close>, so that line 87 raises \<open>ZeroDivisionError\<close> although \<open>r\<close> is not zero; this
  embedding does not show that. It cannot happen when \<open>Rs = 2 * mass \<ge> 1\<close>, where every
  divisor of a step is at least 1; the masses that \<open>main\<close> passes lie between 10 and 100.
  What is proved here about division by zero is stated for \<open>Rs \<ge> 1\<close>.
\<close>

definition physics_engine ::
  "real \<Rightarrow> Photon \<Rightarrow> real \<Rightarrow> real \<Rightarrow> real \<Rightarrow> real \<Rightarrow> error + (real \<times> real)" where
  "physics_engine mass self dx dy r2 r =
     bind_err (py_div dx r) (\<lambda>rx.
     bind_err (py_div dy r) (\<lambda>ry.
     let Lz = dx * snd (vel self) - dy * fst (vel self);
         h2 = Lz * Lz in
     bind_err (py_div (- (G * mass)) r2) (\<lambda>f_mag.
     bind_err (py_div (- (3 * G * mass * h2)) (r ^ 4)) (\<lambda>gr_correction.
     let f_mag = f_mag + gr_correction;
         ax = f_mag * rx;
         ay = f_mag * ry in
     if is_kerr self \<and> hole_spin self \<noteq> 0 then
       bind_err
         (if Lz \<noteq> 0 then
            bind_err (py_div Lz \<bar>Lz\<bar>) (\<lambda>sign_L.
            bind_err (if hole_spin self \<noteq> 0
                      then py_div (hole_spin self) \<bar>hole_spin self\<bar>
                      else Inr 0) (\<lambda>sign_a.
            Inr (sign_L * sign_a)))
          else Inr 0) (\<lambda>alignment.
       bind_err (py_div (2 * hole_spin self * mass) (r ^ 3)) (\<lambda>drag_mag.
       let ax = ax + - ry * drag_mag * 0.5;
           ay = ay + rx * drag_mag * 0.5;
           spin_factor = 1.0 - (alignment * 0.3 * \<bar>hole_spin self\<bar>);
           gr_diff = gr_correction * (spin_factor - 1.0);
           ax = ax + gr_diff * rx;
           ay = ay + gr_diff * ry in
       Inr (ax, ay)))
     else Inr (ax, ay)))))"

text \<open>
  \<^verbatim>\<open>Photon.update(self, mass, center_x, center_y)\<close>. The method mutates the particle; the
  model returns the particle after the call, or the exception that ends the call.
\<close>

definition update :: "real \<Rightarrow> real \<Rightarrow> real \<Rightarrow> Photon \<Rightarrow> error + Photon" where
  "update mass center_x center_y self =
     (if \<not> active self then Inr self
      else
        let h = history self @ [(x_raw self + center_x, y_raw self + center_y)];
            self = self\<lparr>history := (if length h > TRAIL_LENGTH then tl h else h)\<rparr>;
            dx = x_raw self;
            dy = y_raw self;
            r2 = dx * dx + dy * dy in
        bind_err (math_sqrt r2) (\<lambda>r.
        let Rs = 2 * mass in
        if r < Rs then Inr (self\<lparr>active := False\<rparr>)
        else
          bind_err (physics_engine mass self dx dy r2 r) (\<lambda>a.
          let ax = fst a;
              ay = snd a;
              self = self\<lparr>vel := (fst (vel self) + ax * DT, snd (vel self))\<rparr>;
              self = self\<lparr>vel := (fst (vel self), snd (vel self) + ay * DT)\<rparr>;
              self = self\<lparr>x_raw := x_raw self + fst (vel self) * DT\<rparr>;
              self = self\<lparr>y_raw := y_raw self + snd (vel self) * DT\<rparr> in
          bind_err (math_sqrt ((x_raw self)\<^sup>2 + (y_raw self)\<^sup>2)) (\<lambda>d.
          Inr (if d > WIDTH then self\<lparr>dead := True\<rparr> else self)))))"

subsection \<open>The frame loop of main\<close>

record SimulationState =
  mass :: real
  spin :: real
  show_horizon :: bool
  particles_schwarz :: "Photon list"
  particles_kerr :: "Photon list"
  frame_count :: int

text \<open>\<^verbatim>\<open>SimulationState.__init__\<close>\<close>

definition SimulationState_init :: SimulationState where
  "SimulationState_init =
     \<lparr> mass = 30.0, spin = 0.9, show_horizon = True,
       particles_schwarz = [], particles_kerr = [], frame_count = 0 \<rparr>"

text \<open>\<^verbatim>\<open>range(start, stop, step)\<close> for a positive step.\<close>

definition py_range :: "int \<Rightarrow> int \<Rightarrow> int \<Rightarrow> int list" where
  "py_range start stop step =
     map (\<lambda>k. start + step * int k) [0 ..< nat ((stop - start + step - 1) div step)]"

text \<open>Lines 212 to 219: one particle per vertical offset in each collection.\<close>

definition spawn :: "SimulationState \<Rightarrow> SimulationState" where
  "spawn st =
     foldl (\<lambda>st y_off.
        let p_s = Photon_init (real_of_int y_off) WIDTH False 0;
            st = st\<lparr>particles_schwarz := particles_schwarz st @ [p_s]\<rparr>;
            p_k = Photon_init (real_of_int y_off) WIDTH True (spin st);
            st = st\<lparr>particles_kerr := particles_kerr st @ [p_k]\<rparr>
        in st) st (py_range (- 100) 101 10)"

text \<open>Lines 223 and 224: \<^verbatim>\<open>for p in state.particles_schwarz: p.update(state.mass, 0, 0)\<close>\<close>

fun update_schwarz :: "real \<Rightarrow> Photon list \<Rightarrow> error + Photon list" where
  "update_schwarz m [] = Inr []"
| "update_schwarz m (p # ps) =
     bind_err (update m 0 0 p) (\<lambda>q.
     bind_err (update_schwarz m ps) (\<lambda>qs. Inr (q # qs)))"

text \<open>Lines 228 to 230: the Kerr loop assigns the current spin before each update.\<close>

fun update_kerr :: "real \<Rightarrow> real \<Rightarrow> Photon list \<Rightarrow> error + Photon list" where
  "update_kerr m a [] = Inr []"
| "update_kerr m a (p # ps) =
     bind_err (update m 0 0 (p\<lparr>hole_spin := a\<rparr>)) (\<lambda>q.
     bind_err (update_kerr m a ps) (\<lambda>qs. Inr (q # qs)))"

text \<open>Lines 209 to 219: the frame counter and, every \<open>SPAWN_RATE\<close> frames, the spawning.\<close>

definition spawn_step :: "SimulationState \<Rightarrow> SimulationState" where
  "spawn_step st =
     (let st = st\<lparr>frame_count := frame_count st + 1\<rparr> in
      if frame_count st mod SPAWN_RATE = 0 then spawn st else st)"

text \<open>
  Lines 208 to 231 of the loop body of \<open>main\<close>: spawning, the two update passes and the
  two filters.
\<close>

definition frame :: "SimulationState \<Rightarrow> error + SimulationState" where
  "frame st =
     (let st = spawn_step st in
      bind_err (update_schwarz (mass st) (particles_schwarz st)) (\<lambda>ps.
      let st = st\<lparr>particles_schwarz := filter (\<lambda>p. \<not> dead p) ps\<rparr> in
      bind_err (update_kerr (mass st) (spin st) (particles_kerr st)) (\<lambda>ks.
      let st = st\<lparr>particles_kerr := filter (\<lambda>p. \<not> dead p) ks\<rparr> in
      Inr st)))"

text \<open>
  A run of frames. Between two frames the key handler may have changed the mass and the
  spin; each element of the list gives the values that the frame reads. The handler can
  also empty both collections (key R); a run here is a run of frames without that reset.
\<close>

fun run_frames :: "(real \<times> real) list \<Rightarrow> SimulationState \<Rightarrow> error + SimulationState" where
  "run_frames [] st = Inr st"
| "run_frames (ma # mas) st =
     bind_err (frame (st\<lparr>mass := fst ma, spin := snd ma\<rparr>)) (run_frames mas)"

section \<open>Notions used to state the properties\<close>

text \<open>The distance of a particle from the centre, \<open>|position|\<close>.\<close>

definition radius :: "Photon \<Rightarrow> real" where
  "radius p = sqrt (x_raw p * x_raw p + y_raw p * y_raw p)"

text \<open>The world position that a call of \<open>update\<close> appends to the history.\<close>

definition world_position :: "real \<Rightarrow> real \<Rightarrow> Photon \<Rightarrow> real \<times> real" where
  "world_position cx cy p = (x_raw p + cx, y_raw p + cy)"

text \<open>
  The acceleration as the specification words it: the Newtonian term and the relativistic
  correction along the unit radial vector and, when the Kerr flag is set and the spin is
  not zero, the tangential frame-dragging term and the radial delta. Of the two unit vectors
  perpendicular to the radial one, the tangential direction is \<open>(-y / r, x / r)\<close>, the radial
  vector turned by a quarter turn from the \<open>x\<close> axis towards the \<open>y\<close> axis.
\<close>

definition spec_acceleration ::
  "real \<Rightarrow> bool \<Rightarrow> real \<Rightarrow> real \<times> real \<Rightarrow> real \<times> real \<Rightarrow> real \<times> real" where
  "spec_acceleration M kerr a position velocity =
     (let x = fst position; y = snd position;
          vx = fst velocity; vy = snd velocity;
          r = sqrt (x\<^sup>2 + y\<^sup>2);
          radial = (x / r, y / r);
          tangential = (- (y / r), x / r);
          Lz = x * vy - y * vx;
          newtonian = - (G * M) / r\<^sup>2;
          correction = - (3 * G * M * Lz\<^sup>2) / r ^ 4;
          alignment = (if Lz = 0 then 0 else sgn Lz * sgn a);
          drag = 0.5 * (2 * a * M / r ^ 3);
          delta = correction * (- alignment * 0.3 * \<bar>a\<bar>);
          base = newtonian + correction
      in if kerr \<and> a \<noteq> 0
         then (base * fst radial + drag * fst tangential + delta * fst radial,
               base * snd radial + drag * snd tangential + delta * snd radial)
         else (base * fst radial, base * snd radial))"

text \<open>
  The forward Euler step as the specification words it: the velocity advances by the
  acceleration times \<open>DT\<close>, the position by the new velocity times \<open>DT\<close>. The result is the
  pair of the new velocity and the new position.
\<close>

definition spec_euler_step :: "real \<Rightarrow> Photon \<Rightarrow> (real \<times> real) \<times> (real \<times> real)" where
  "spec_euler_step M p =
     (let a = spec_acceleration M (is_kerr p) (hole_spin p) (x_raw p, y_raw p) (vel p);
          v = (fst (vel p) + fst a * DT, snd (vel p) + snd a * DT)
      in (v, (x_raw p + fst v * DT, y_raw p + snd v * DT)))"

text \<open>The velocity and the position of a particle.\<close>

definition motion :: "Photon \<Rightarrow> (real \<times> real) \<times> (real \<times> real)" where
  "motion p = (vel p, (x_raw p, y_raw p))"

text \<open>The history after lines 56 to 58: the world position appended, then the oldest entry
  dropped if the list has grown beyond \<open>TRAIL_LENGTH\<close>.\<close>

definition appended :: "real \<Rightarrow> real \<Rightarrow> Photon \<Rightarrow> (real \<times> real) list" where
  "appended cx cy p =
     (let h = history p @ [world_position cx cy p]
      in if length h > TRAIL_LENGTH then tl h else h)"

text \<open>The particle after the Euler step of the specification, before the distance check.\<close>

definition moved :: "real \<Rightarrow> real \<Rightarrow> real \<Rightarrow> Photon \<Rightarrow> Photon" where
  "moved M cx cy p =
     p\<lparr> history := appended cx cy p,
        vel := fst (spec_euler_step M p),
        x_raw := fst (snd (spec_euler_step M p)),
        y_raw := snd (snd (spec_euler_step M p)) \<rparr>"

text \<open>The part of a particle that the integrator hands on: position, velocity, history
  and the two flags.\<close>

definition outcome ::
  "Photon \<Rightarrow> (real \<times> real) \<times> (real \<times> real) \<times> (real \<times> real) list \<times> bool \<times> bool" where
  "outcome p = ((x_raw p, y_raw p), vel p, history p, active p, dead p)"

text \<open>
  Reflection across the horizontal axis through the black hole, together with the negation
  of the spin. World positions in the history are offset by the centre, so the axis is at
  height \<open>cy\<close> there.
\<close>

definition mirror :: "real \<Rightarrow> Photon \<Rightarrow> Photon" where
  "mirror cy p =
     p\<lparr> pos := (fst (pos p), - snd (pos p)),
        y_raw := - y_raw p,
        vel := (fst (vel p), - snd (vel p)),
        history := map (\<lambda>h. (fst h, 2 * cy - snd h)) (history p),
        hole_spin := - hole_spin p \<rparr>"

text \<open>
  A sequence of calls of \<open>update\<close> on one particle. Each call gives the mass and the centre;
  its first component is the spin that the Kerr loop of \<open>main\<close> assigns to \<open>hole_spin\<close>
  before the call, if any.
\<close>

type_synonym call = "real option \<times> real \<times> real \<times> real"

definition assign_spin :: "real option \<Rightarrow> Photon \<Rightarrow> Photon" where
  "assign_spin a p = (case a of None \<Rightarrow> p | Some s \<Rightarrow> p\<lparr>hole_spin := s\<rparr>)"

definition call_update :: "call \<Rightarrow> Photon \<Rightarrow> error + Photon" where
  "call_update c p = (case c of (a, m, cx, cy) \<Rightarrow> update m cx cy (assign_spin a p))"

fun drive :: "call list \<Rightarrow> Photon \<Rightarrow> error + Photon" where
  "drive [] p = Inr p"
| "drive (c # cs) p = bind_err (call_update c p) (drive cs)"

text \<open>The world position of the particle at the start of each call of a sequence.\<close>

fun recorded :: "call list \<Rightarrow> Photon \<Rightarrow> (real \<times> real) list" where
  "recorded [] p = []"
| "recorded (c # cs) p =
     (case c of (a, m, cx, cy) \<Rightarrow> world_position cx cy p) #
     (case call_update c p of Inl e \<Rightarrow> [] | Inr q \<Rightarrow> recorded cs q)"

text \<open>
  What the update pass and the filter of one frame do to one particle: \<open>p\<close> is the particle
  when its update is called at mass \<open>M\<close>, \<open>q\<close> the particle that the call returns and \<open>coll\<close>
  the collection after the filter. The particle stays in the collection exactly when it is
  not dead; it is dead exactly when it was dead already or it was active, outside \<open>Rs\<close> and
  its distance from the centre after the step exceeds \<open>WIDTH\<close>; and a particle that was
  inactive or inside \<open>Rs\<close> comes out inactive with its \<open>dead\<close> flag as it was.
\<close>

definition pass_result :: "real \<Rightarrow> Photon list \<Rightarrow> Photon \<Rightarrow> Photon \<Rightarrow> bool" where
  "pass_result M coll p q \<longleftrightarrow>
     update M 0 0 p = Inr q \<and>
     (q \<in> set coll \<longleftrightarrow> \<not> dead q) \<and>
     (dead q \<longleftrightarrow> dead p \<or> (active p \<and> 2 * M \<le> radius p \<and> WIDTH < radius q)) \<and>
     (\<not> active p \<or> radius p < 2 * M \<longrightarrow> \<not> active q \<and> dead q = dead p)"

text \<open>A vector of the particle plane as a vector of the ray-marcher's space.\<close>

definition embed_plane :: "real \<times> real \<Rightarrow> vec3" where
  "embed_plane v = (fst v, snd v, 0)"

section \<open>Basic facts about the embedding\<close>

lemma bind_err_Inl [simp]: "bind_err (Inl e) f = Inl e"
  by (simp add: bind_err_def)

lemma bind_err_Inr [simp]: "bind_err (Inr x) f = f x"
  by (simp add: bind_err_def)

lemma py_div_nonzero [simp]: "b \<noteq> 0 \<Longrightarrow> py_div a b = Inr (a / b)"
  by (simp add: py_div_def)

lemma py_div_zero [simp]: "py_div a 0 = Inl ZeroDivisionError"
  by (simp add: py_div_def)

lemma math_sqrt_nonneg [simp]: "0 \<le> x \<Longrightarrow> math_sqrt x = Inr (sqrt x)"
  by (simp add: math_sqrt_def)

lemma div_abs_sgn: "(x::real) \<noteq> 0 \<Longrightarrow> x / \<bar>x\<bar> = sgn x"
  by (simp add: sgn_real_def)

lemma physics_engine_depends:
  "physics_engine M (p\<lparr>history := h\<rparr>) dx dy r2 r = physics_engine M p dx dy r2 r"
  by (simp add: physics_engine_def Let_def cong: if_cong)

lemma physics_engine_spec:
  assumes "sqrt (x * x + y * y) \<noteq> 0"
  shows "physics_engine M p x y (x * x + y * y) (sqrt (x * x + y * y)) =
         Inr (spec_acceleration M (is_kerr p) (hole_spin p) (x, y) (vel p))"
proof -
  define r where "r = sqrt (x * x + y * y)"
  define Lz where "Lz = x * snd (vel p) - y * fst (vel p)"
  have r0: "r \<noteq> 0" using assms by (simp add: r_def)
  have r2: "x * x + y * y = r\<^sup>2" by (simp add: r_def)
  have p2: "x\<^sup>2 + y\<^sup>2 = r\<^sup>2" by (simp add: r_def power2_eq_square)
  have sr: "\<bar>r\<bar> = r" by (simp add: r_def)
  have code: "physics_engine M p x y (r\<^sup>2) r =
    Inr (let f = - (G * M) / r\<^sup>2 + - (3 * G * M * (Lz * Lz)) / r ^ 4;
             g = - (3 * G * M * (Lz * Lz)) / r ^ 4;
             al = (if Lz = 0 then 0 else sgn Lz * sgn (hole_spin p)) in
         if is_kerr p \<and> hole_spin p \<noteq> 0 then
           (f * (x / r) + - (y / r) * (2 * hole_spin p * M / r ^ 3) * 0.5
              + g * (1.0 - (al * 0.3 * \<bar>hole_spin p\<bar>) - 1.0) * (x / r),
            f * (y / r) + (x / r) * (2 * hole_spin p * M / r ^ 3) * 0.5
              + g * (1.0 - (al * 0.3 * \<bar>hole_spin p\<bar>) - 1.0) * (y / r))
         else (f * (x / r), f * (y / r)))"
    using r0 by (simp add: physics_engine_def Let_def Lz_def[symmetric] div_abs_sgn mult_ac)
  have spec: "spec_acceleration M (is_kerr p) (hole_spin p) (x, y) (vel p) =
    (let f = - (G * M) / r\<^sup>2 + - (3 * G * M * (Lz * Lz)) / r ^ 4;
             g = - (3 * G * M * (Lz * Lz)) / r ^ 4;
             al = (if Lz = 0 then 0 else sgn Lz * sgn (hole_spin p)) in
         if is_kerr p \<and> hole_spin p \<noteq> 0 then
           (f * (x / r) + - (y / r) * (2 * hole_spin p * M / r ^ 3) * 0.5
              + g * (1.0 - (al * 0.3 * \<bar>hole_spin p\<bar>) - 1.0) * (x / r),
            f * (y / r) + (x / r) * (2 * hole_spin p * M / r ^ 3) * 0.5
              + g * (1.0 - (al * 0.3 * \<bar>hole_spin p\<bar>) - 1.0) * (y / r))
         else (f * (x / r), f * (y / r)))"
    by (simp add: spec_acceleration_def Let_def p2 sr Lz_def[symmetric] power2_eq_square[of Lz] mult_ac)
  show ?thesis
    unfolding r_def[symmetric] unfolding r2 by (simp only: code spec)
qed

lemma radius_nonneg: "0 \<le> radius p"
  by (simp add: radius_def)

lemma radius_spawned: "radius (Photon_init 0 800 False 0) = 400"
proof -
  have "radius (Photon_init 0 800 False 0) = sqrt (400 * 400)"
    by (simp add: radius_def Photon_init_def)
  also have "\<dots> = 400" using real_sqrt_abs2[of 400] by simp
  finally show ?thesis .
qed

lemma update_inactive: "\<not> active p \<Longrightarrow> update M cx cy p = Inr p"
  by (simp add: update_def)

lemma update_captured:
  assumes "active p" and "radius p < 2 * M"
  shows "update M cx cy p = Inr (p\<lparr>history := appended cx cy p, active := False\<rparr>)"
  using assms
  by (simp add: update_def Let_def radius_def appended_def world_position_def)

lemma update_singular:
  assumes "active p" and "\<not> radius p < 2 * M" and "radius p = 0"
  shows "update M cx cy p = Inl ZeroDivisionError"
  using assms
  by (simp add: update_def Let_def radius_def physics_engine_def)

lemma update_moved:
  assumes "active p" and "\<not> radius p < 2 * M" and "radius p \<noteq> 0"
  shows "update M cx cy p =
         Inr (if radius (moved M cx cy p) > WIDTH
              then (moved M cx cy p)\<lparr>dead := True\<rparr> else moved M cx cy p)"
proof -
  let ?x = "x_raw p" and ?y = "y_raw p"
  have r: "sqrt (?x * ?x + ?y * ?y) \<noteq> 0"
    using assms(3) by (simp add: radius_def)
  have pe: "physics_engine M (p\<lparr>history := h\<rparr>) ?x ?y (?x * ?x + ?y * ?y) (sqrt (?x * ?x + ?y * ?y))
      = Inr (spec_acceleration M (is_kerr p) (hole_spin p) (?x, ?y) (vel p))" for h
    using physics_engine_spec[OF r, of M "p\<lparr>history := h\<rparr>"] by simp
  show ?thesis
    using assms(1,2)
    by (simp add: update_def Let_def pe radius_def moved_def spec_euler_step_def
        appended_def world_position_def power2_eq_square)
qed

lemma assign_spin_fields [simp]:
  "active (assign_spin a p) = active p"
  "x_raw (assign_spin a p) = x_raw p"
  "y_raw (assign_spin a p) = y_raw p"
  "vel (assign_spin a p) = vel p"
  "history (assign_spin a p) = history p"
  "dead (assign_spin a p) = dead p"
  "is_kerr (assign_spin a p) = is_kerr p"
  "pos (assign_spin a p) = pos p"
  by (simp_all add: assign_spin_def split: option.split)

lemma drive_inactive:
  "\<not> active q \<Longrightarrow> \<exists>s. drive cs q = Inr (q\<lparr>hole_spin := s\<rparr>)"
proof (induction cs arbitrary: q)
  case Nil
  have "q = q\<lparr>hole_spin := hole_spin q\<rparr>" by simp
  then show ?case by (metis drive.simps(1))
next
  case (Cons c cs)
  obtain a m cx cy where c: "c = (a, m, cx, cy)" by (cases c) auto
  have step: "call_update c q = Inr (assign_spin a q)"
    using Cons.prems by (simp add: call_update_def c update_inactive)
  have "\<not> active (assign_spin a q)" using Cons.prems by simp
  from Cons.IH[OF this] obtain s where
    "drive cs (assign_spin a q) = Inr ((assign_spin a q)\<lparr>hole_spin := s\<rparr>)" by blast
  moreover have "(assign_spin a q)\<lparr>hole_spin := s\<rparr> = q\<lparr>hole_spin := s\<rparr>"
    by (simp add: assign_spin_def split: option.split)
  ultimately show ?case using step by auto
qed

section \<open>Capture is final (C2)\<close>

text \<open>
  Claim C2. At any update where the radius of the particle is below \<open>Rs = 2 * mass\<close>, the
  update returns a particle that is not active and whose position and velocity are those
  it had before the call; and whatever calls of \<open>update\<close> follow, with whatever masses,
  centres and spin assignments, each of them returns, and position, velocity and history
  stay what they were after the capturing call.
\<close>

theorem captured_never_resumes:
  assumes "radius p < 2 * M"
  shows "\<exists>q. update M cx cy p = Inr q \<and> \<not> active q \<and> motion q = motion p \<and>
           (\<forall>cs. \<exists>q'. drive cs q = Inr q' \<and> \<not> active q' \<and>
                        motion q' = motion q \<and> history q' = history q)"
proof -
  define q where "q = (if active p then p\<lparr>history := appended cx cy p, active := False\<rparr> else p)"
  have u: "update M cx cy p = Inr q"
    using assms by (simp add: q_def update_captured update_inactive)
  have na: "\<not> active q" by (simp add: q_def)
  have m: "motion q = motion p" by (simp add: q_def motion_def)
  have later: "\<exists>q'. drive cs q = Inr q' \<and> \<not> active q' \<and>
                 motion q' = motion q \<and> history q' = history q" for cs
  proof -
    from drive_inactive[OF na] obtain s where "drive cs q = Inr (q\<lparr>hole_spin := s\<rparr>)" by blast
    then show ?thesis using na by (simp add: motion_def)
  qed
  show ?thesis using u na m later by blast
qed

theorem captured_never_resumes_witness:
  "radius (Photon_init 0 0 False 0) < 2 * 30 \<and>
   (\<exists>q. update 30 0 0 (Photon_init 0 0 False 0) = Inr q \<and> \<not> active q \<and>
        motion q = motion (Photon_init 0 0 False 0) \<and>
        (\<forall>cs. \<exists>q'. drive cs q = Inr q' \<and> \<not> active q' \<and>
                     motion q' = motion q \<and> history q' = history q))"
proof -
  have h: "radius (Photon_init 0 0 False 0) < 2 * 30"
    by (simp add: radius_def Photon_init_def)
  show ?thesis using h captured_never_resumes[OF h, of 0 0] by simp
qed

section \<open>Zero spin (C5)\<close>

lemma spec_euler_step_no_spin:
  "spec_euler_step M (p\<lparr>is_kerr := True, hole_spin := 0\<rparr>) =
   spec_euler_step M (p\<lparr>is_kerr := False, hole_spin := a\<rparr>)"
  by (simp add: spec_euler_step_def spec_acceleration_def Let_def)

text \<open>
  Claim C5. For every particle, mass and centre, \<open>update\<close> on the particle with the Kerr
  flag set and spin 0 and \<open>update\<close> on the same particle with the Kerr flag unset (whatever
  spin it carries) end the same way: both raise the same exception, or both return, and
  then position, velocity, history, \<open>active\<close> and \<open>dead\<close> are equal.
\<close>

theorem zero_spin_is_schwarzschild:
  "map_sum id outcome (update M cx cy (p\<lparr>is_kerr := True, hole_spin := 0\<rparr>)) =
   map_sum id outcome (update M cx cy (p\<lparr>is_kerr := False, hole_spin := a\<rparr>))"
proof -
  let ?k = "p\<lparr>is_kerr := True, hole_spin := 0\<rparr>" and ?s = "p\<lparr>is_kerr := False, hole_spin := a\<rparr>"
  have r: "radius ?k = radius p" "radius ?s = radius p" by (simp_all add: radius_def)
  have h: "appended cx cy ?k = appended cx cy p" "appended cx cy ?s = appended cx cy p"
    by (simp_all add: appended_def world_position_def)
  consider (inactive) "\<not> active p"
    | (captured) "active p" "radius p < 2 * M"
    | (singular) "active p" "\<not> radius p < 2 * M" "radius p = 0"
    | (moved) "active p" "\<not> radius p < 2 * M" "radius p \<noteq> 0"
    by blast
  then show ?thesis
  proof cases
    case inactive
    then show ?thesis by (simp add: update_inactive outcome_def)
  next
    case captured
    then show ?thesis by (simp add: update_captured r h outcome_def)
  next
    case singular
    then show ?thesis by (simp add: update_singular r)
  next
    case moved
    have mk: "outcome (moved M cx cy ?k) = outcome (moved M cx cy ?s)"
      "radius (moved M cx cy ?k) = radius (moved M cx cy ?s)"
      by (simp_all add: moved_def outcome_def radius_def h spec_euler_step_no_spin[of M p a])
    have d: "outcome (q\<lparr>dead := True\<rparr>) = (fst (outcome q), fst (snd (outcome q)),
        fst (snd (snd (outcome q))), fst (snd (snd (snd (outcome q)))), True)" for q
      by (simp add: outcome_def)
    from moved show ?thesis
      by (simp add: update_moved r mk d)
  qed
qed

lemma appended_last: "appended cx cy p \<noteq> [] \<and> last (appended cx cy p) = world_position cx cy p"
proof (cases "history p")
  case Nil
  then show ?thesis by (simp add: appended_def TRAIL_LENGTH_def)
next
  case (Cons a as)
  then show ?thesis by (simp add: appended_def Let_def)
qed

lemma update_total:
  assumes "0 < M"
  shows "\<exists>q. update M cx cy p = Inr q"
proof -
  consider (inactive) "\<not> active p"
    | (captured) "active p" "radius p < 2 * M"
    | (moved) "active p" "\<not> radius p < 2 * M"
    by blast
  then show ?thesis
  proof cases
    case inactive
    then show ?thesis by (simp add: update_inactive)
  next
    case captured
    then show ?thesis by (simp add: update_captured)
  next
    case moved
    with assms have "radius p \<noteq> 0" by linarith
    with moved show ?thesis by (simp add: update_moved)
  qed
qed

lemma update_history:
  assumes "active p" and "update M cx cy p = Inr q"
  shows "history q = appended cx cy p"
proof -
  consider (captured) "radius p < 2 * M"
    | (singular) "\<not> radius p < 2 * M" "radius p = 0"
    | (moved) "\<not> radius p < 2 * M" "radius p \<noteq> 0"
    by blast
  then show ?thesis
  proof cases
    case captured
    with assms show ?thesis by (auto simp add: update_captured)
  next
    case singular
    with assms show ?thesis by (simp add: update_singular)
  next
    case moved
    with assms show ?thesis by (auto simp add: update_moved moved_def split: if_splits)
  qed
qed

section \<open>The position is recorded before the capture test (C10)\<close>

text \<open>
  Claim C10. In every call of \<open>update\<close> on an active particle that returns, the history
  is not empty afterwards and its last entry is the world position the particle had at the
  start of the call. In particular, in the call that captures the particle (radius below
  \<open>Rs = 2 * mass\<close>) the last entry of the history is that position, whose distance from the
  centre is strictly less than \<open>Rs\<close>: the trail can end inside the event horizon.
\<close>

theorem position_recorded_before_capture:
  assumes "active p"
  shows "(\<forall>q. update M cx cy p = Inr q \<longrightarrow>
            history q \<noteq> [] \<and> last (history q) = (x_raw p + cx, y_raw p + cy)) \<and>
         (radius p < 2 * M \<longrightarrow>
            (\<exists>q. update M cx cy p = Inr q \<and> \<not> active q \<and>
                 last (history q) = (x_raw p + cx, y_raw p + cy) \<and>
                 sqrt ((fst (last (history q)) - cx)\<^sup>2 + (snd (last (history q)) - cy)\<^sup>2) < 2 * M))"
proof (rule conjI)
  show "\<forall>q. update M cx cy p = Inr q \<longrightarrow>
            history q \<noteq> [] \<and> last (history q) = (x_raw p + cx, y_raw p + cy)"
  proof (intro allI impI)
    fix q assume "update M cx cy p = Inr q"
    with assms have "history q = appended cx cy p" by (rule update_history)
    then show "history q \<noteq> [] \<and> last (history q) = (x_raw p + cx, y_raw p + cy)"
      using appended_last[of cx cy p] by (simp add: world_position_def)
  qed
next
  show "radius p < 2 * M \<longrightarrow>
            (\<exists>q. update M cx cy p = Inr q \<and> \<not> active q \<and>
                 last (history q) = (x_raw p + cx, y_raw p + cy) \<and>
                 sqrt ((fst (last (history q)) - cx)\<^sup>2 + (snd (last (history q)) - cy)\<^sup>2) < 2 * M)"
  proof
    assume c: "radius p < 2 * M"
    let ?q = "p\<lparr>history := appended cx cy p, active := False\<rparr>"
    have u: "update M cx cy p = Inr ?q" using assms c by (rule update_captured)
    have l: "last (history ?q) = (x_raw p + cx, y_raw p + cy)"
      using appended_last[of cx cy p] by (simp add: world_position_def)
    have d: "sqrt ((fst (last (history ?q)) - cx)\<^sup>2 + (snd (last (history ?q)) - cy)\<^sup>2) < 2 * M"
      unfolding l using c by (simp add: radius_def power2_eq_square)
    have n: "\<not> active ?q" by simp
    from u n l d show "\<exists>q. update M cx cy p = Inr q \<and> \<not> active q \<and>
                 last (history q) = (x_raw p + cx, y_raw p + cy) \<and>
                 sqrt ((fst (last (history q)) - cx)\<^sup>2 + (snd (last (history q)) - cy)\<^sup>2) < 2 * M"
      by blast
  qed
qed

theorem position_recorded_before_capture_witness:
  "active (Photon_init 0 0 False 0) \<and> radius (Photon_init 0 0 False 0) < 2 * 30 \<and>
   (\<exists>q. update 30 0 0 (Photon_init 0 0 False 0) = Inr q \<and> \<not> active q \<and>
        last (history q) = (0, 0) \<and>
        sqrt ((fst (last (history q)) - 0)\<^sup>2 + (snd (last (history q)) - 0)\<^sup>2) < 2 * 30)"
proof -
  have a: "active (Photon_init 0 0 False 0)" by (simp add: Photon_init_def)
  have r: "radius (Photon_init 0 0 False 0) < 2 * 30" by (simp add: radius_def Photon_init_def)
  have z: "x_raw (Photon_init 0 0 False 0) = 0" "y_raw (Photon_init 0 0 False 0) = 0"
    by (simp_all add: Photon_init_def)
  show ?thesis
    using a r position_recorded_before_capture[OF a, of 30 0 0] by (simp add: z)
qed

lemma length3_nonneg: "0 \<le> length3 v"
  by (cases v) (simp add: length3_def)

lemma length3_zero: "length3 v = 0 \<longleftrightarrow> v = (0, 0, 0)"
proof (cases v)
  case (fields x y z)
  have "x * x + y * y + z * z = 0 \<longleftrightarrow> x * x + y * y = 0 \<and> z * z = 0"
    by (rule add_nonneg_eq_0_iff) simp_all
  then have "x * x + y * y + z * z = 0 \<longleftrightarrow> x = 0 \<and> y = 0 \<and> z = 0"
    by (simp add: sum_squares_eq_zero_iff)
  then show ?thesis using fields by (simp add: length3_def)
qed

lemma length3_scale3: "length3 (scale3 v k) = \<bar>k\<bar> * length3 v"
proof (cases v)
  case (fields x y z)
  have "x * k * (x * k) + y * k * (y * k) + z * k * (z * k) = k\<^sup>2 * (x * x + y * y + z * z)"
    by (simp add: power2_eq_square algebra_simps)
  then show ?thesis using fields
    by (simp add: length3_def scale3_def real_sqrt_mult)
qed

lemma length3_neg3: "length3 (neg3 v) = length3 v"
  by (cases v) (simp add: length3_def neg3_def)

lemma normalize_nonzero:
  assumes "length3 v \<noteq> 0"
  shows "normalize3 v = Inr (scale3 v (1 / length3 v))"
  using assms by (cases v) (simp add: normalize3_def scale3_def)

lemma normalize_unit:
  assumes "normalize3 v = Inr n"
  shows "length3 n = 1"
proof -
  have nz: "length3 v \<noteq> 0"
    using assms by (cases v) (auto simp: normalize3_def py_div_def split: if_splits)
  then have "n = scale3 v (1 / length3 v)" using assms by (simp add: normalize_nonzero)
  then show ?thesis using nz length3_nonneg[of v] by (simp add: length3_scale3)
qed

lemma gravity_force_total:
  assumes "\<not> length3 v < BH_RADIUS"
  shows "\<exists>f. gravity_force v (length3 v) = Inr f \<and>
             length3 f = 3 / (length3 v * length3 v)"
proof -
  have r: "1 \<le> length3 v" using assms by (simp add: BH_RADIUS_def)
  then have nz: "length3 v \<noteq> 0" by linarith
  obtain n where n: "normalize3 v = Inr n" using nz by (simp add: normalize_nonzero)
  have "gravity_force v (length3 v) = Inr (scale3 (neg3 n) (3 / (length3 v * length3 v)))"
    using n nz by (simp add: gravity_force_def)
  moreover have "length3 (scale3 (neg3 n) (3 / (length3 v * length3 v)))
      = 3 / (length3 v * length3 v)"
    using normalize_unit[OF n] r by (simp add: length3_scale3 length3_neg3)
  ultimately show ?thesis by blast
qed

lemma march_step_direction:
  assumes u: "length3 d = 1" and r: "\<not> length3 v < BH_RADIUS"
    and f: "length3 f = 3 / (length3 v * length3 v)"
  shows "length3 (add3 d (scale3 f (max 0.05 (length3 v * 0.1)))) \<noteq> 0"
proof
  let ?r = "length3 v"
  let ?h = "max 0.05 (?r * 0.1) :: real"
  assume "length3 (add3 d (scale3 f ?h)) = 0"
  then have z: "add3 d (scale3 f ?h) = (0, 0, 0)" by (simp add: length3_zero)
  have "d = neg3 (scale3 f ?h)"
    using z by (cases d; cases "scale3 f ?h") (auto simp: add3_def neg3_def)
  then have "length3 d = \<bar>?h\<bar> * length3 f" by (simp add: length3_neg3 length3_scale3)
  then have e: "1 = ?h * (3 / (?r * ?r))" using u f by (simp add: max_def split: if_splits)
  have r1: "1 \<le> ?r" using r by (simp add: BH_RADIUS_def)
  then have "1 * ?r \<le> ?r * ?r" by (intro mult_right_mono) (auto simp: length3_nonneg)
  then have rr: "?r \<le> ?r * ?r" by simp
  have "?h * 3 \<le> 0.3 * ?r + 0.15" using length3_nonneg[of v] by (simp add: max_def)
  also have "\<dots> < ?r" using r1 by simp
  also have "\<dots> \<le> ?r * ?r" by (rule rr)
  finally have lt: "?h * 3 < ?r * ?r" .
  have "?r * ?r \<noteq> 0" using r1 by simp
  then have "?h * 3 = ?r * ?r" using e by (simp add: field_simps)
  with lt show False by simp
qed

lemma march_total:
  assumes "length3 d = 1"
  shows "\<exists>res. march n v d = Inr res"
  using assms
proof (induction n arbitrary: v d)
  case 0
  show ?case by (rule exI[of _ "(v, d, True)"]) simp
next
  case (Suc n)
  show ?case
  proof (cases "length3 v < BH_RADIUS")
    case True
    then have "march (Suc n) v d = Inr (v, d, False)" by simp
    then show ?thesis by (rule exI)
  next
    case False
    from gravity_force_total[OF False] obtain f where
      f: "gravity_force v (length3 v) = Inr f" "length3 f = 3 / (length3 v * length3 v)" by blast
    let ?w = "add3 d (scale3 f (max 0.05 (length3 v * 0.1)))"
    have nz: "length3 ?w \<noteq> 0" using Suc.prems False f(2) by (rule march_step_direction)
    then obtain d' where d': "normalize3 ?w = Inr d'" by (simp add: normalize_nonzero)
    have "length3 d' = 1" using d' by (rule normalize_unit)
    from Suc.IH[OF this] obtain res where
      res: "march n (add3 v (scale3 d' (max 0.05 (length3 v * 0.1)))) d' = Inr res" by blast
    have "march (Suc n) v d =
        (if length3 v > 1000 then Inr (add3 v (scale3 d' (max 0.05 (length3 v * 0.1))), d', True)
         else march n (add3 v (scale3 d' (max 0.05 (length3 v * 0.1)))) d')"
      using False f(1) d' by (simp add: Let_def)
    then have "march (Suc n) v d = Inr res \<or>
        march (Suc n) v d = Inr (add3 v (scale3 d' (max 0.05 (length3 v * 0.1))), d', True)"
      using res by (simp del: march.simps split: if_splits)
    then show ?thesis by blast
  qed
qed

section \<open>No division by zero (C7)\<close>

lemma physics_engine_total:
  assumes "r \<noteq> 0" and "r2 \<noteq> 0"
  shows "\<exists>a. physics_engine M p dx dy r2 r = Inr a"
  using assms by (simp add: physics_engine_def Let_def)

lemma physics_engine_guards:
  assumes "r \<noteq> 0" and "r2 \<noteq> 0"
  shows "physics_engine M p dx dy r2 r \<noteq> Inl ZeroDivisionError"
  using physics_engine_total[OF assms, of M p dx dy] by auto

lemma divisors_at_least_Rs:
  assumes M: "1 / 2 \<le> M" and r: "\<not> radius p < 2 * M"
  shows "2 * M \<le> radius p \<and>
         2 * M \<le> x_raw p * x_raw p + y_raw p * y_raw p \<and>
         2 * M \<le> radius p ^ 4 \<and>
         2 * M \<le> radius p ^ 3"
proof -
  define s where "s = radius p"
  have s: "2 * M \<le> s" using r by (simp add: s_def)
  then have s1: "1 \<le> s" using M by linarith
  have sq: "x_raw p * x_raw p + y_raw p * y_raw p = s * s"
    by (simp add: s_def radius_def)
  have m: "s \<le> s * t" if "1 \<le> t" for t
    using mult_left_mono[OF that, of s] s1 by simp
  have s2: "s \<le> s * s" using s1 by (rule m)
  have "1 \<le> s * s" using s1 s2 by linarith
  then have s3: "s \<le> s * (s * s)" by (rule m)
  have "1 \<le> s * (s * s)" using s1 s3 by linarith
  then have s4: "s \<le> s * (s * (s * s))" by (rule m)
  have p3: "s ^ 3 = s * (s * s)" by (simp add: power3_eq_cube mult.assoc)
  have p4: "s ^ 4 = s * (s * (s * s))" by (simp add: power4_eq_xxxx mult.assoc)
  show ?thesis
    unfolding sq s_def[symmetric] p3 p4 using s s2 s3 s4 by linarith
qed

text \<open>
  Claim C7, amended. With \<open>mass \<ge> 1/2\<close>, that is \<open>Rs = 2 * mass \<ge> 1\<close>, as for every mass between
  10 and 100 that \<open>main\<close> passes, no call of \<open>update\<close> ends in a division by zero: the test
  \<open>r < Rs\<close> ends the call before any division when the radius is below \<open>Rs\<close>, and in a step
  that goes on each of the divisors \<open>r\<close>, \<open>r2\<close>, \<open>r ** 4\<close> and \<open>r ** 3\<close> is at least \<open>Rs\<close>, hence at
  least 1. The force computation meets no division by zero whenever these four divisors
  are not zero, whatever \<open>Lz\<close> and the spin are: the divisions by \<open>|Lz|\<close> and \<open>|spin|\<close> are
  guarded. In the ray-marcher the force of a step is computed only when \<open>r < BH_RADIUS\<close> is
  false, and then its divisors \<open>r\<close> and \<open>r * r\<close> are at least \<open>BH_RADIUS = 1\<close>; what is more, from
  a unit direction the whole loop meets no division by zero.
\<close>

theorem no_division_by_zero:
  assumes "1 / 2 \<le> M"
  shows "update M cx cy p \<noteq> Inl ZeroDivisionError \<and>
         (active p \<and> \<not> radius p < 2 * M \<longrightarrow>
            2 * M \<le> radius p \<and>
            2 * M \<le> x_raw p * x_raw p + y_raw p * y_raw p \<and>
            2 * M \<le> radius p ^ 4 \<and>
            2 * M \<le> radius p ^ 3) \<and>
         (r \<noteq> 0 \<and> r2 \<noteq> 0 \<and> r ^ 4 \<noteq> 0 \<and> r ^ 3 \<noteq> 0 \<longrightarrow>
            physics_engine M p dx dy r2 r \<noteq> Inl ZeroDivisionError) \<and>
         (\<not> length3 v < BH_RADIUS \<longrightarrow>
            BH_RADIUS \<le> length3 v \<and> BH_RADIUS \<le> length3 v * length3 v \<and>
            (\<exists>f. gravity_force v (length3 v) = Inr f)) \<and>
         (length3 d = 1 \<longrightarrow> (\<exists>res. physics_loop v d = Inr res))"
proof -
  have "0 < M" using assms by simp
  then have a: "update M cx cy p \<noteq> Inl ZeroDivisionError"
    using update_total[of M cx cy p] by auto
  have b: "active p \<and> \<not> radius p < 2 * M \<longrightarrow>
            2 * M \<le> radius p \<and>
            2 * M \<le> x_raw p * x_raw p + y_raw p * y_raw p \<and>
            2 * M \<le> radius p ^ 4 \<and>
            2 * M \<le> radius p ^ 3"
    using divisors_at_least_Rs[OF assms, of p] by blast
  have c: "r \<noteq> 0 \<and> r2 \<noteq> 0 \<and> r ^ 4 \<noteq> 0 \<and> r ^ 3 \<noteq> 0 \<longrightarrow>
            physics_engine M p dx dy r2 r \<noteq> Inl ZeroDivisionError"
    using physics_engine_guards[of r r2 M p dx dy] by blast
  have e: "\<not> length3 v < BH_RADIUS \<longrightarrow>
            BH_RADIUS \<le> length3 v \<and> BH_RADIUS \<le> length3 v * length3 v \<and>
            (\<exists>f. gravity_force v (length3 v) = Inr f)"
  proof
    assume h: "\<not> length3 v < BH_RADIUS"
    then have l: "1 \<le> length3 v" by (simp add: BH_RADIUS_def)
    then have "1 * 1 \<le> length3 v * length3 v" by (intro mult_mono) simp_all
    then have "BH_RADIUS \<le> length3 v * length3 v" by (simp add: BH_RADIUS_def)
    moreover have "BH_RADIUS \<le> length3 v" using h by simp
    moreover have "\<exists>f. gravity_force v (length3 v) = Inr f"
      using gravity_force_total[OF h] by blast
    ultimately show "BH_RADIUS \<le> length3 v \<and> BH_RADIUS \<le> length3 v * length3 v \<and>
            (\<exists>f. gravity_force v (length3 v) = Inr f)" by blast
  qed
  have f: "length3 d = 1 \<longrightarrow> (\<exists>res. physics_loop v d = Inr res)"
    using march_total[of d MAX_STEPS v] by (simp add: physics_loop_def)
  from a b c e f show ?thesis by blast
qed

theorem no_division_by_zero_witness:
  "(1 / 2 :: real) \<le> 30 \<and>
   update 30 0 0 (Photon_init 0 800 False 0) \<noteq> Inl ZeroDivisionError \<and>
   active (Photon_init 0 800 False 0) \<and>
   \<not> radius (Photon_init 0 800 False 0) < 2 * 30 \<and>
   2 * 30 \<le> radius (Photon_init 0 800 False 0) ^ 4 \<and>
   (400::real) \<noteq> 0 \<and> (160000::real) \<noteq> 0 \<and> (400::real) ^ 4 \<noteq> 0 \<and> (400::real) ^ 3 \<noteq> 0 \<and>
   physics_engine 30 (Photon_init 0 800 False 0) (- 400) 0 160000 400 \<noteq> Inl ZeroDivisionError \<and>
   \<not> length3 (1, 0, 0) < BH_RADIUS \<and>
   (\<exists>f. gravity_force (1, 0, 0) (length3 (1, 0, 0)) = Inr f) \<and>
   length3 (1, 0, 0) = 1 \<and>
   (\<exists>res. physics_loop (1, 0, 0) (1, 0, 0) = Inr res)"
proof -
  have m: "(1 / 2 :: real) \<le> 30" by simp
  have l: "length3 (1, 0, 0) = 1" by (simp add: length3_def)
  have a: "active (Photon_init 0 800 False 0)" by (simp add: Photon_init_def)
  have r: "\<not> radius (Photon_init 0 800 False 0) < 2 * 30" by (simp add: radius_spawned)
  have n: "\<not> length3 (1, 0, 0) < BH_RADIUS" by (simp add: l BH_RADIUS_def)
  have z: "(400::real) \<noteq> 0 \<and> (160000::real) \<noteq> 0 \<and> (400::real) ^ 4 \<noteq> 0 \<and> (400::real) ^ 3 \<noteq> 0"
    by simp
  from no_division_by_zero[OF m, where cx = 0 and cy = 0
        and p = "Photon_init 0 800 False 0" and r = 400 and ?r2.0 = 160000
        and dx = "- 400" and dy = 0 and v = "(1, 0, 0)" and d = "(1, 0, 0)"] a r n l z
  have "update 30 0 0 (Photon_init 0 800 False 0) \<noteq> Inl ZeroDivisionError \<and>
     2 * 30 \<le> radius (Photon_init 0 800 False 0) ^ 4 \<and>
     physics_engine 30 (Photon_init 0 800 False 0) (- 400) 0 160000 400 \<noteq> Inl ZeroDivisionError \<and>
     (\<exists>f. gravity_force (1, 0, 0) (length3 (1, 0, 0)) = Inr f) \<and>
     (\<exists>res. physics_loop (1, 0, 0) (1, 0, 0) = Inr res)"
    by blast
  with m l a r n z show ?thesis by blast
qed

lemma radius_fifth:
  "radius \<lparr>pos = (0, 0), x_raw = 1 / 5, y_raw = 0, vel = (4, 0), history = [],
           active = True, is_kerr = False, hole_spin = 0, dead = False\<rparr> = 1 / 5"
proof -
  have "sqrt ((1 / 5) * (1 / 5) :: real) = 1 / 5" using real_sqrt_abs2[of "1 / 5"] by simp
  then show ?thesis by (simp add: radius_def)
qed

text \<open>
  Claim C7 as stated, for every \<open>mass > 0\<close>, fails: with mass \<open>1/10\<close> an active particle at
  radius \<open>1/5\<close> is not captured (\<open>Rs = 1/5\<close>), and the divisor \<open>r ** 4 = 1/625\<close> of line 87 is
  smaller than \<open>Rs\<close>.
\<close>

theorem divisor_below_Rs:
  "(0::real) < 1 / 10 \<and>
   active \<lparr>pos = (0, 0), x_raw = 1 / 5, y_raw = 0, vel = (4, 0), history = [],
           active = True, is_kerr = False, hole_spin = 0, dead = False\<rparr> \<and>
   \<not> radius \<lparr>pos = (0, 0), x_raw = 1 / 5, y_raw = 0, vel = (4, 0), history = [],
             active = True, is_kerr = False, hole_spin = 0, dead = False\<rparr> < 2 * (1 / 10) \<and>
   radius \<lparr>pos = (0, 0), x_raw = 1 / 5, y_raw = 0, vel = (4, 0), history = [],
           active = True, is_kerr = False, hole_spin = 0, dead = False\<rparr> ^ 4 < 2 * (1 / 10)"
  by (simp add: radius_fifth power4_eq_xxxx)

section \<open>Mirror symmetry (C8)\<close>

lemma mirror_fields [simp]:
  "active (mirror cy p) = active p"
  "dead (mirror cy p) = dead p"
  "is_kerr (mirror cy p) = is_kerr p"
  "x_raw (mirror cy p) = x_raw p"
  "y_raw (mirror cy p) = - y_raw p"
  "vel (mirror cy p) = (fst (vel p), - snd (vel p))"
  "hole_spin (mirror cy p) = - hole_spin p"
  "history (mirror cy p) = map (\<lambda>h. (fst h, 2 * cy - snd h)) (history p)"
  by (simp_all add: mirror_def)

lemma radius_mirror [simp]: "radius (mirror cy p) = radius p"
  by (simp add: radius_def)

lemma appended_mirror:
  "appended cx cy (mirror cy p) = map (\<lambda>h. (fst h, 2 * cy - snd h)) (appended cx cy p)"
  by (simp add: appended_def Let_def world_position_def map_tl)

lemma spec_acceleration_mirror:
  "spec_acceleration M k (- a) (x, - y) (vx, - vy) =
   (fst (spec_acceleration M k a (x, y) (vx, vy)), - snd (spec_acceleration M k a (x, y) (vx, vy)))"
proof -
  define Lz where "Lz = x * vy - y * vx"
  have L: "x * - vy - - y * vx = - Lz" by (simp add: Lz_def)
  show ?thesis
    unfolding spec_acceleration_def Let_def fst_conv snd_conv L Lz_def[symmetric]
    by (simp add: sgn_minus)
qed

lemma spec_euler_step_mirror:
  "spec_euler_step M (mirror cy p) =
   (let s = spec_euler_step M p in
    ((fst (fst s), - snd (fst s)), (fst (snd s), - snd (snd s))))"
proof -
  obtain vx vy where v: "vel p = (vx, vy)" by (cases "vel p")
  show ?thesis
    by (simp add: spec_euler_step_def Let_def v spec_acceleration_mirror algebra_simps)
qed

lemma moved_mirror: "moved M cx cy (mirror cy p) = mirror cy (moved M cx cy p)"
proof -
  have "moved M cx cy (mirror cy p) =
      (mirror cy p)\<lparr> history := map (\<lambda>h. (fst h, 2 * cy - snd h)) (appended cx cy p),
        vel := (fst (fst (spec_euler_step M p)), - snd (fst (spec_euler_step M p))),
        x_raw := fst (snd (spec_euler_step M p)),
        y_raw := - snd (snd (spec_euler_step M p)) \<rparr>"
    unfolding moved_def[of M cx cy "mirror cy p"] spec_euler_step_mirror appended_mirror Let_def
    by simp
  also have "\<dots> = mirror cy (moved M cx cy p)"
    by (simp add: mirror_def moved_def)
  finally show ?thesis .
qed

lemma mirror_dead: "mirror cy (q\<lparr>dead := True\<rparr>) = (mirror cy q)\<lparr>dead := True\<rparr>"
  by (simp add: mirror_def)

lemma update_mirror_step:
  "update M cx cy (mirror cy p) = map_sum id (mirror cy) (update M cx cy p)"
proof -
  consider (inactive) "\<not> active p"
    | (captured) "active p" "radius p < 2 * M"
    | (singular) "active p" "\<not> radius p < 2 * M" "radius p = 0"
    | (moved) "active p" "\<not> radius p < 2 * M" "radius p \<noteq> 0"
    by blast
  then show ?thesis
  proof cases
    case inactive
    then show ?thesis by (simp add: update_inactive)
  next
    case captured
    then show ?thesis by (simp add: update_captured appended_mirror) (simp add: mirror_def)
  next
    case singular
    then show ?thesis by (simp add: update_singular)
  next
    case moved
    then show ?thesis
      by (simp add: update_moved moved_mirror mirror_dead)
  qed
qed

lemma assign_spin_mirror:
  "assign_spin (map_option uminus a) (mirror cy p) = mirror cy (assign_spin a p)"
  by (cases a) (simp_all add: assign_spin_def mirror_def)

lemma drive_mirror:
  "drive (map (\<lambda>(a, m, cx). (map_option uminus a, m, cx, cy)) cs) (mirror cy p) =
   map_sum id (mirror cy) (drive (map (\<lambda>(a, m, cx). (a, m, cx, cy)) cs) p)"
proof (induction cs arbitrary: p)
  case Nil
  show ?case by simp
next
  case (Cons c cs)
  obtain a m cx where c: "c = (a, m, cx)" by (cases c)
  have step: "call_update (map_option uminus a, m, cx, cy) (mirror cy p) =
        map_sum id (mirror cy) (call_update (a, m, cx, cy) p)"
    by (simp add: call_update_def assign_spin_mirror update_mirror_step)
  show ?case
  proof (cases "call_update (a, m, cx, cy) p")
    case (Inl e)
    then show ?thesis using step by (simp add: c)
  next
    case (Inr q)
    then show ?thesis using step Cons.IH[of q] by (simp add: c)
  qed
qed

text \<open>
  Claim C8. Mirroring commutes with the update. Reflecting a particle across the
  horizontal axis through the black hole (\<open>y\<close> to \<open>-y\<close>, \<open>vy\<close> to \<open>-vy\<close>, which negates \<open>Lz\<close>)
  and negating its spin, then calling \<open>update\<close>, gives the reflection of what \<open>update\<close>
  gives on the original particle, exception for exception and particle for particle. Hence
  for any sequence of calls, the trajectory of the mirrored particle under the negated
  spins is the mirror image of the original trajectory.
\<close>

theorem mirror_commutes_with_update:
  "update M cx cy (mirror cy p) = map_sum id (mirror cy) (update M cx cy p) \<and>
   drive (map (\<lambda>(a, m, cx). (map_option uminus a, m, cx, cy)) cs) (mirror cy p) =
   map_sum id (mirror cy) (drive (map (\<lambda>(a, m, cx). (a, m, cx, cy)) cs) p)"
  by (simp only: update_mirror_step drive_mirror)

section \<open>The force law and the Euler step (C1)\<close>

lemma motion_dead [simp]: "motion (q\<lparr>dead := b\<rparr>) = motion q"
  by (simp add: motion_def)

lemma motion_moved: "motion (moved M cx cy p) = spec_euler_step M p"
  by (simp add: motion_def moved_def)

text \<open>
  Claim C1, amended. For every active particle with \<open>mass > 0\<close> and radius
  \<open>r \<ge> Rs = 2 * mass\<close> at the start of a step, the acceleration that \<open>update\<close> computes is
  the acceleration of the specification: the Newtonian term \<open>-G mass / r\<^sup>2\<close> and the
  relativistic correction \<open>-3 G mass Lz\<^sup>2 / r\<^sup>4\<close> along the unit radial vector and, exactly
  when the Kerr flag is set and the spin is not zero, the tangential term of magnitude
  \<open>0.5 (2 spin mass / r\<^sup>3)\<close> and the radial delta \<open>correction * (- alignment * 0.3 * |spin|)\<close>.
  The call returns, the new velocity is the old one plus the acceleration times \<open>DT\<close>, and
  the new position is the old one plus the new velocity times \<open>DT\<close>.
\<close>

theorem update_is_forward_euler:
  assumes "active p" and "0 < M" and "2 * M \<le> radius p"
  shows "physics_engine M p (x_raw p) (y_raw p)
           (x_raw p * x_raw p + y_raw p * y_raw p) (radius p) =
         Inr (spec_acceleration M (is_kerr p) (hole_spin p) (x_raw p, y_raw p) (vel p)) \<and>
         (\<exists>q. update M cx cy p = Inr q \<and> motion q = spec_euler_step M p)"
proof -
  have r: "\<not> radius p < 2 * M" "radius p \<noteq> 0" using assms(2,3) by auto
  with assms(1) have "update M cx cy p =
         Inr (if radius (moved M cx cy p) > WIDTH
              then (moved M cx cy p)\<lparr>dead := True\<rparr> else moved M cx cy p)"
    by (rule update_moved)
  then have "\<exists>q. update M cx cy p = Inr q \<and> motion q = spec_euler_step M p"
    by (auto simp: motion_moved)
  moreover have "physics_engine M p (x_raw p) (y_raw p)
           (x_raw p * x_raw p + y_raw p * y_raw p) (radius p) =
         Inr (spec_acceleration M (is_kerr p) (hole_spin p) (x_raw p, y_raw p) (vel p))"
    using r(2) unfolding radius_def by (rule physics_engine_spec)
  ultimately show ?thesis by blast
qed

theorem update_is_forward_euler_witness:
  "active (Photon_init 0 800 False 0) \<and> (0::real) < 30 \<and>
   2 * 30 \<le> radius (Photon_init 0 800 False 0) \<and>
   (\<exists>q. update 30 0 0 (Photon_init 0 800 False 0) = Inr q \<and>
        motion q = spec_euler_step 30 (Photon_init 0 800 False 0))"
proof -
  have a: "active (Photon_init 0 800 False 0)" by (simp add: Photon_init_def)
  have m: "(0::real) < 30" by simp
  have r: "2 * 30 \<le> radius (Photon_init 0 800 False 0)" by (simp add: radius_spawned)
  show ?thesis using a m r update_is_forward_euler[OF a m r, of 0 0] by simp
qed

text \<open>
  The claim as stated, for every particle, fails on a particle that is not active: a
  particle captured under a larger mass can be at \<open>r \<ge> Rs\<close> once the mass has been lowered,
  and \<open>update\<close> returns it unchanged (lines 52 and 53).
\<close>

theorem inactive_particle_is_not_advanced:
  "(0::real) < 1 / 2 \<and>
   2 * (1 / 2) \<le> radius \<lparr>pos = (0, 0), x_raw = 1, y_raw = 0, vel = (4, 0), history = [],
                          active = False, is_kerr = False, hole_spin = 0, dead = False\<rparr> \<and>
   map_sum id motion
     (update (1 / 2) 0 0 \<lparr>pos = (0, 0), x_raw = 1, y_raw = 0, vel = (4, 0), history = [],
                          active = False, is_kerr = False, hole_spin = 0, dead = False\<rparr>)
   \<noteq> Inr (spec_euler_step (1 / 2)
             \<lparr>pos = (0, 0), x_raw = 1, y_raw = 0, vel = (4, 0), history = [],
              active = False, is_kerr = False, hole_spin = 0, dead = False\<rparr>)"
  by (simp add: radius_def update_inactive motion_def spec_euler_step_def
      spec_acceleration_def G_def DT_def)

section \<open>The ray-marcher and the particle integrator (C3)\<close>

lemma length3_embed: "length3 (embed_plane (x, y)) = sqrt (x * x + y * y)"
  by (simp add: embed_plane_def length3_def)

lemma gravity_force_plane:
  assumes "sqrt (x * x + y * y) \<noteq> 0"
  shows "gravity_force (embed_plane (x, y)) (length3 (embed_plane (x, y))) =
         Inr (embed_plane (- (x / sqrt (x * x + y * y)) * (3 / (x * x + y * y)),
                           - (y / sqrt (x * x + y * y)) * (3 / (x * x + y * y))))"
proof -
  have l: "length3 (x, y, 0) = sqrt (x * x + y * y)" by (simp add: length3_def)
  have r2: "x * x + y * y \<noteq> 0" using assms by auto
  show ?thesis
    using assms r2
    by (simp add: gravity_force_def normalize3_def embed_plane_def l scale3_def neg3_def)
qed

lemma spec_acceleration_shader_iff:
  assumes "sqrt (x * x + y * y) \<noteq> 0"
  shows "spec_acceleration M k a (x, y) (vx, vy) =
           (- (x / sqrt (x * x + y * y)) * (3 / (x * x + y * y)),
            - (y / sqrt (x * x + y * y)) * (3 / (x * x + y * y)))
         \<longleftrightarrow> \<not> (k \<and> a \<noteq> 0) \<and>
             M * ((x * x + y * y) + 3 * (x * vy - y * vx)\<^sup>2) = 3 * (x * x + y * y)"
proof -
  define r where "r = sqrt (x\<^sup>2 + y\<^sup>2)"
  define ux where "ux = x / r"
  define uy where "uy = y / r"
  define Lz where "Lz = x * vy - y * vx"
  define nw where "nw = - (G * M) / r\<^sup>2"
  define co where "co = - (3 * G * M * Lz\<^sup>2) / r ^ 4"
  define dr where "dr = 0.5 * (2 * a * M / r ^ 3)"
  define de where "de = co * (- (if Lz = 0 then 0 else sgn Lz * sgn a) * 0.3 * \<bar>a\<bar>)"
  define t where "t = - (3 / r\<^sup>2)"
  have rs: "sqrt (x * x + y * y) = r" by (simp add: r_def power2_eq_square)
  have r0: "r \<noteq> 0" using assms by (simp add: rs)
  have rr: "r\<^sup>2 = x * x + y * y" by (simp add: r_def power2_eq_square)
  have unit: "ux * ux + uy * uy = 1"
  proof -
    have "ux * ux + uy * uy = (x * x + y * y) / r\<^sup>2"
      by (simp add: ux_def uy_def power2_eq_square add_divide_distrib)
    also have "\<dots> = r\<^sup>2 / r\<^sup>2" by (simp only: rr)
    also have "\<dots> = 1" using r0 by simp
    finally show ?thesis .
  qed
  have form: "spec_acceleration M k a (x, y) (vx, vy) =
      (if k \<and> a \<noteq> 0
       then ((nw + co) * ux + dr * (- uy) + de * ux, (nw + co) * uy + dr * ux + de * uy)
       else ((nw + co) * ux, (nw + co) * uy))"
    unfolding spec_acceleration_def Let_def fst_conv snd_conv
    unfolding Lz_def[symmetric] r_def[symmetric]
    unfolding ux_def[symmetric] uy_def[symmetric] nw_def[symmetric] co_def[symmetric]
    unfolding dr_def[symmetric] de_def[symmetric]
    by (rule refl)
  have target: "(- (x / sqrt (x * x + y * y)) * (3 / (x * x + y * y)),
            - (y / sqrt (x * x + y * y)) * (3 / (x * x + y * y))) = (t * ux, t * uy)"
    unfolding rs unfolding rr[symmetric] by (simp add: t_def ux_def uy_def mult_ac)
  have t0: "t \<noteq> 0" using r0 by (simp add: t_def)
  have scal: "c = 0 \<and> d = 0" if "c * ux - d * uy = 0" "c * uy + d * ux = 0" for c d :: real
  proof -
    have "c * (ux * ux + uy * uy) = ux * (c * ux - d * uy) + uy * (c * uy + d * ux)"
      by (simp add: algebra_simps)
    moreover have "d * (ux * ux + uy * uy) = ux * (c * uy + d * ux) - uy * (c * ux - d * uy)"
      by (simp add: algebra_simps)
    ultimately show ?thesis unfolding that unit by simp
  qed
  have cond: "nw + co = t \<longleftrightarrow> M * (r\<^sup>2 + 3 * Lz\<^sup>2) = 3 * r\<^sup>2"
  proof -
    define s where "s = r\<^sup>2"
    define L where "L = Lz\<^sup>2"
    have s0: "s \<noteq> 0" using r0 by (simp add: s_def)
    have r4: "r ^ 4 = s * s" by (simp add: s_def power2_eq_square power4_eq_xxxx)
    have n: "nw = - M / s" by (simp add: nw_def s_def G_def)
    have c: "co = - (3 * M * L) / (s * s)" by (simp add: co_def r4 L_def G_def)
    have t: "t = - (3 / s)" by (simp add: t_def s_def)
    have e: "nw + co - t = (3 * s - M * (s + 3 * L)) / (s * s)"
      unfolding n c t using s0 by (simp add: field_simps)
    have "nw + co = t \<longleftrightarrow> nw + co - t = 0" by simp
    also have "\<dots> \<longleftrightarrow> 3 * s - M * (s + 3 * L) = 0"
      unfolding e using s0 by simp
    also have "\<dots> \<longleftrightarrow> M * (s + 3 * L) = 3 * s" by auto
    finally show ?thesis by (simp add: s_def L_def)
  qed
  show ?thesis
  proof (cases "k \<and> a \<noteq> 0")
    case False
    from False have c: "(k \<and> a \<noteq> 0) = False" by simp
    have f: "spec_acceleration M k a (x, y) (vx, vy) = ((nw + co) * ux, (nw + co) * uy)"
      unfolding form c by simp
    have eq: "((nw + co) * ux, (nw + co) * uy) = (t * ux, t * uy) \<longleftrightarrow> nw + co = t"
    proof
      assume "((nw + co) * ux, (nw + co) * uy) = (t * ux, t * uy)"
      then have "(nw + co - t) * ux - 0 * uy = 0" "(nw + co - t) * uy + 0 * ux = 0"
        by (simp_all add: algebra_simps)
      from scal[OF this] show "nw + co = t" by simp
    next
      assume "nw + co = t"
      then show "((nw + co) * ux, (nw + co) * uy) = (t * ux, t * uy)" by simp
    qed
    show ?thesis
      unfolding f target unfolding Lz_def[symmetric] rr[symmetric]
      using eq cond False by blast
  next
    case True
    from True have c: "(k \<and> a \<noteq> 0) = True" by simp
    have f: "spec_acceleration M k a (x, y) (vx, vy) =
        ((nw + co) * ux + dr * (- uy) + de * ux, (nw + co) * uy + dr * ux + de * uy)"
      unfolding form c by simp
    have ne: "((nw + co) * ux + dr * (- uy) + de * ux, (nw + co) * uy + dr * ux + de * uy)
        \<noteq> (t * ux, t * uy)"
    proof
      assume "((nw + co) * ux + dr * (- uy) + de * ux, (nw + co) * uy + dr * ux + de * uy)
        = (t * ux, t * uy)"
      then have "(nw + co + de - t) * ux - dr * uy = 0" "(nw + co + de - t) * uy + dr * ux = 0"
        by (simp_all add: algebra_simps)
      from scal[OF this] have z: "nw + co + de - t = 0" "dr = 0" by simp_all
      from z(2) True r0 have "M = 0" by (simp add: dr_def)
      then have "nw = 0" "co = 0" "de = 0" by (simp_all add: nw_def co_def de_def)
      with z(1) t0 show False by simp
    qed
    show ?thesis
      unfolding f target using ne True by blast
  qed
qed

text \<open>
  Claim C3, amended. The acceleration that the ray-marcher applies in a step is
  \<open>-normalize(pos) * 3 / r\<^sup>2\<close>: a function of the position alone, with the fixed strength 3
  and with no dependence on the direction, on a mass or on a spin. For a step that both
  integrators take at the same position of the plane \<open>z = 0\<close> (the particle active with
  \<open>r \<ge> Rs = 2 * mass\<close>, and \<open>r \<ge> BH_RADIUS\<close>), the acceleration of the particle integrator is
  equal to that of the ray-marcher exactly when the spin branch is not taken and
  \<open>mass * (r\<^sup>2 + 3 Lz\<^sup>2) = 3 r\<^sup>2\<close>. For a mass above 3, so for every mass between 10 and 100
  that \<open>main\<close> passes, the two are never equal.
\<close>

theorem ray_marcher_force_is_position_only:
  assumes "active p" and "\<not> radius p < 2 * M"
    and "\<not> length3 (embed_plane (x_raw p, y_raw p)) < BH_RADIUS"
  shows "gravity_force (embed_plane (x_raw p, y_raw p)) (length3 (embed_plane (x_raw p, y_raw p))) =
           Inr (embed_plane
                 (- (x_raw p / radius p) * (3 / (x_raw p * x_raw p + y_raw p * y_raw p)),
                  - (y_raw p / radius p) * (3 / (x_raw p * x_raw p + y_raw p * y_raw p)))) \<and>
         (map_sum id embed_plane
            (physics_engine M p (x_raw p) (y_raw p)
               (x_raw p * x_raw p + y_raw p * y_raw p) (radius p)) =
          gravity_force (embed_plane (x_raw p, y_raw p)) (length3 (embed_plane (x_raw p, y_raw p)))
          \<longleftrightarrow> \<not> (is_kerr p \<and> hole_spin p \<noteq> 0) \<and>
              M * ((x_raw p * x_raw p + y_raw p * y_raw p) +
                   3 * (x_raw p * snd (vel p) - y_raw p * fst (vel p))\<^sup>2) =
              3 * (x_raw p * x_raw p + y_raw p * y_raw p)) \<and>
         (3 < M \<longrightarrow>
            map_sum id embed_plane
              (physics_engine M p (x_raw p) (y_raw p)
                 (x_raw p * x_raw p + y_raw p * y_raw p) (radius p)) \<noteq>
            gravity_force (embed_plane (x_raw p, y_raw p))
              (length3 (embed_plane (x_raw p, y_raw p))))"
proof -
  let ?x = "x_raw p" and ?y = "y_raw p"
  let ?s = "?x * ?x + ?y * ?y"
  let ?L = "(?x * snd (vel p) - ?y * fst (vel p))\<^sup>2"
  have "1 \<le> sqrt ?s" using assms(3) by (simp add: length3_embed BH_RADIUS_def)
  then have r: "sqrt ?s \<noteq> 0" by linarith
  then have "?s \<noteq> 0" by auto
  moreover have "0 \<le> ?s" by simp
  ultimately have s0: "0 < ?s" by linarith
  have inj: "embed_plane u = embed_plane w \<longleftrightarrow> u = w" for u w
    by (cases u; cases w) (simp add: embed_plane_def)
  obtain vx vy where v: "vel p = (vx, vy)" by (cases "vel p")
  have g: "gravity_force (embed_plane (?x, ?y)) (length3 (embed_plane (?x, ?y))) =
           Inr (embed_plane (- (?x / radius p) * (3 / ?s), - (?y / radius p) * (3 / ?s)))"
    unfolding radius_def by (rule gravity_force_plane[OF r])
  have e: "physics_engine M p ?x ?y ?s (radius p) =
      Inr (spec_acceleration M (is_kerr p) (hole_spin p) (?x, ?y) (vel p))"
    unfolding radius_def by (rule physics_engine_spec[OF r])
  have i: "map_sum id embed_plane (physics_engine M p ?x ?y ?s (radius p)) =
          gravity_force (embed_plane (?x, ?y)) (length3 (embed_plane (?x, ?y)))
          \<longleftrightarrow> \<not> (is_kerr p \<and> hole_spin p \<noteq> 0) \<and> M * (?s + 3 * ?L) = 3 * ?s"
    unfolding g e
    using spec_acceleration_shader_iff[OF r, of M "is_kerr p" "hole_spin p" vx vy]
    by (simp add: inj v radius_def)
  have n: "M * (?s + 3 * ?L) \<noteq> 3 * ?s" if "3 < M"
  proof -
    define s where "s = ?s"
    define L where "L = ?L"
    have "0 < s" using s0 by (simp add: s_def)
    then have "3 * s < M * s" using that by simp
    moreover have "0 \<le> M * (3 * L)" using that by (simp add: L_def)
    moreover have "M * (s + 3 * L) = M * s + M * (3 * L)" by (simp add: distrib_left)
    ultimately have "M * (s + 3 * L) \<noteq> 3 * s" by linarith
    then show ?thesis by (simp add: s_def L_def)
  qed
  from g i n show ?thesis by blast
qed

theorem ray_marcher_force_is_position_only_witness:
  "active (Photon_init 0 800 False 0) \<and>
   \<not> radius (Photon_init 0 800 False 0) < 2 * 3 \<and>
   \<not> length3 (embed_plane (x_raw (Photon_init 0 800 False 0), y_raw (Photon_init 0 800 False 0)))
       < BH_RADIUS \<and>
   map_sum id embed_plane
     (physics_engine 3 (Photon_init 0 800 False 0)
        (x_raw (Photon_init 0 800 False 0)) (y_raw (Photon_init 0 800 False 0))
        (x_raw (Photon_init 0 800 False 0) * x_raw (Photon_init 0 800 False 0) +
         y_raw (Photon_init 0 800 False 0) * y_raw (Photon_init 0 800 False 0))
        (radius (Photon_init 0 800 False 0))) =
   gravity_force
     (embed_plane (x_raw (Photon_init 0 800 False 0), y_raw (Photon_init 0 800 False 0)))
     (length3 (embed_plane (x_raw (Photon_init 0 800 False 0), y_raw (Photon_init 0 800 False 0))))"
proof -
  let ?p = "Photon_init 0 800 False 0"
  have a: "active ?p" by (simp add: Photon_init_def)
  have r: "\<not> radius ?p < 2 * 3" by (simp add: radius_spawned)
  have "length3 (embed_plane (x_raw ?p, y_raw ?p)) = radius ?p"
    by (simp add: length3_embed radius_def)
  then have l: "\<not> length3 (embed_plane (x_raw ?p, y_raw ?p)) < BH_RADIUS"
    by (simp add: radius_spawned BH_RADIUS_def)
  have c: "\<not> (is_kerr ?p \<and> hole_spin ?p \<noteq> 0) \<and>
      3 * ((x_raw ?p * x_raw ?p + y_raw ?p * y_raw ?p) +
           3 * (x_raw ?p * snd (vel ?p) - y_raw ?p * fst (vel ?p))\<^sup>2) =
      3 * (x_raw ?p * x_raw ?p + y_raw ?p * y_raw ?p)"
    by (simp add: Photon_init_def)
  from ray_marcher_force_is_position_only[OF a r l] c a r l show ?thesis by blast
qed

text \<open>
  Claim C3 as stated fails. The shader has no shared force model with the particle
  integrator: at the position \<open>(2, 0)\<close> with direction \<open>(1, 0)\<close> its force is \<open>(-3/4, 0, 0)\<close>,
  while the particle integrator, with mass 1 at the same position and velocity, computes
  \<open>(-1/4, 0)\<close>.
\<close>

theorem ray_marcher_differs_from_particle_force:
  "gravity_force (embed_plane (2, 0)) (length3 (embed_plane (2, 0))) \<noteq>
   map_sum id embed_plane
     (physics_engine 1
        \<lparr>pos = (0, 0), x_raw = 2, y_raw = 0, vel = (1, 0), history = [],
         active = True, is_kerr = False, hole_spin = 0, dead = False\<rparr>
        2 0 (2 * 2 + 0 * 0) (sqrt (2 * 2 + 0 * 0)))"
  by (simp add: gravity_force_def normalize3_def embed_plane_def length3_def scale3_def neg3_def
      physics_engine_def G_def)

section \<open>What the per-frame filter removes (C4)\<close>

lemma radius_dead [simp]: "radius (q\<lparr>dead := b\<rparr>) = radius q"
  by (simp add: radius_def)

lemma update_fate:
  assumes "0 < M"
  shows "\<exists>q. update M cx cy p = Inr q \<and>
           (dead q \<longleftrightarrow> dead p \<or> (active p \<and> 2 * M \<le> radius p \<and> WIDTH < radius q)) \<and>
           (\<not> active p \<or> radius p < 2 * M \<longrightarrow> \<not> active q \<and> dead q = dead p)"
proof -
  consider (inactive) "\<not> active p"
    | (captured) "active p" "radius p < 2 * M"
    | (moved) "active p" "\<not> radius p < 2 * M"
    by blast
  then show ?thesis
  proof cases
    case inactive
    then show ?thesis by (simp add: update_inactive)
  next
    case captured
    then show ?thesis by (simp add: update_captured)
  next
    case moved
    with assms have nz: "radius p \<noteq> 0" by linarith
    have d: "dead (moved M cx cy p) = dead p" by (simp add: moved_def)
    show ?thesis
      using moved nz by (simp add: update_moved d)
  qed
qed

lemma update_schwarz_total:
  assumes "0 < M"
  shows "\<exists>qs. update_schwarz M ps = Inr qs \<and> list_all2 (\<lambda>p q. update M 0 0 p = Inr q) ps qs"
proof (induction ps)
  case Nil
  show ?case by simp
next
  case (Cons p ps)
  from update_total[OF assms, of 0 0 p] obtain q where q: "update M 0 0 p = Inr q" by blast
  from Cons.IH obtain qs where
    qs: "update_schwarz M ps = Inr qs" "list_all2 (\<lambda>p q. update M 0 0 p = Inr q) ps qs" by blast
  have "update_schwarz M (p # ps) = Inr (q # qs)" using q qs(1) by simp
  then show ?case using q qs(2) by simp
qed

lemma update_kerr_total:
  assumes "0 < M"
  shows "\<exists>qs. update_kerr M a ps = Inr qs \<and>
           list_all2 (\<lambda>p q. update M 0 0 p = Inr q) (map (\<lambda>p. p\<lparr>hole_spin := a\<rparr>) ps) qs"
proof (induction ps)
  case Nil
  show ?case by simp
next
  case (Cons p ps)
  from update_total[OF assms, of 0 0 "p\<lparr>hole_spin := a\<rparr>"] obtain q where
    q: "update M 0 0 (p\<lparr>hole_spin := a\<rparr>) = Inr q" by blast
  from Cons.IH obtain qs where
    qs: "update_kerr M a ps = Inr qs"
      "list_all2 (\<lambda>p q. update M 0 0 p = Inr q) (map (\<lambda>p. p\<lparr>hole_spin := a\<rparr>) ps) qs" by blast
  have "update_kerr M a (p # ps) = Inr (q # qs)" using q qs(1) by simp
  then show ?case using q qs(2) by simp
qed

lemma spawn_fold:
  "mass (foldl (\<lambda>st y_off.
        let p_s = Photon_init (real_of_int y_off) WIDTH False 0;
            st = st\<lparr>particles_schwarz := particles_schwarz st @ [p_s]\<rparr>;
            p_k = Photon_init (real_of_int y_off) WIDTH True (spin st);
            st = st\<lparr>particles_kerr := particles_kerr st @ [p_k]\<rparr>
        in st) st ys) = mass st \<and>
   spin (foldl (\<lambda>st y_off.
        let p_s = Photon_init (real_of_int y_off) WIDTH False 0;
            st = st\<lparr>particles_schwarz := particles_schwarz st @ [p_s]\<rparr>;
            p_k = Photon_init (real_of_int y_off) WIDTH True (spin st);
            st = st\<lparr>particles_kerr := particles_kerr st @ [p_k]\<rparr>
        in st) st ys) = spin st \<and>
   frame_count (foldl (\<lambda>st y_off.
        let p_s = Photon_init (real_of_int y_off) WIDTH False 0;
            st = st\<lparr>particles_schwarz := particles_schwarz st @ [p_s]\<rparr>;
            p_k = Photon_init (real_of_int y_off) WIDTH True (spin st);
            st = st\<lparr>particles_kerr := particles_kerr st @ [p_k]\<rparr>
        in st) st ys) = frame_count st \<and>
   particles_schwarz (foldl (\<lambda>st y_off.
        let p_s = Photon_init (real_of_int y_off) WIDTH False 0;
            st = st\<lparr>particles_schwarz := particles_schwarz st @ [p_s]\<rparr>;
            p_k = Photon_init (real_of_int y_off) WIDTH True (spin st);
            st = st\<lparr>particles_kerr := particles_kerr st @ [p_k]\<rparr>
        in st) st ys) =
     particles_schwarz st @ map (\<lambda>y. Photon_init (real_of_int y) WIDTH False 0) ys \<and>
   particles_kerr (foldl (\<lambda>st y_off.
        let p_s = Photon_init (real_of_int y_off) WIDTH False 0;
            st = st\<lparr>particles_schwarz := particles_schwarz st @ [p_s]\<rparr>;
            p_k = Photon_init (real_of_int y_off) WIDTH True (spin st);
            st = st\<lparr>particles_kerr := particles_kerr st @ [p_k]\<rparr>
        in st) st ys) =
     particles_kerr st @ map (\<lambda>y. Photon_init (real_of_int y) WIDTH True (spin st)) ys"
  by (induction ys arbitrary: st) (simp_all add: Let_def)

lemma spawn_fields:
  "mass (spawn st) = mass st"
  "spin (spawn st) = spin st"
  "frame_count (spawn st) = frame_count st"
  "particles_schwarz (spawn st) =
     particles_schwarz st @ map (\<lambda>y. Photon_init (real_of_int y) WIDTH False 0) (py_range (- 100) 101 10)"
  "particles_kerr (spawn st) =
     particles_kerr st @ map (\<lambda>y. Photon_init (real_of_int y) WIDTH True (spin st)) (py_range (- 100) 101 10)"
  unfolding spawn_def using spawn_fold[of st "py_range (- 100) 101 10"] by simp_all

lemma py_range_spawn_length: "length (py_range (- 100) 101 10) = 21"
  by (simp add: py_range_def)

lemma spawn_step_fields:
  "mass (spawn_step st) = mass st"
  "spin (spawn_step st) = spin st"
  "frame_count (spawn_step st) = frame_count st + 1"
  "\<exists>new. particles_schwarz (spawn_step st) = particles_schwarz st @ new \<and>
     length new = (if (frame_count st + 1) mod SPAWN_RATE = 0 then 21 else 0)"
  "\<exists>new. particles_kerr (spawn_step st) = particles_kerr st @ new \<and>
     length new = (if (frame_count st + 1) mod SPAWN_RATE = 0 then 21 else 0)"
  by (simp_all add: spawn_step_def Let_def spawn_fields py_range_spawn_length)

lemma update_schwarz_Inr:
  "update_schwarz M ps = Inr qs \<Longrightarrow> list_all2 (\<lambda>p q. update M 0 0 p = Inr q) ps qs"
proof (induction ps arbitrary: qs)
  case Nil
  then show ?case by simp
next
  case (Cons p ps)
  from Cons.prems obtain q qs' where
    "update M 0 0 p = Inr q" "update_schwarz M ps = Inr qs'" "qs = q # qs'"
    by (auto simp: bind_err_def split: sum.splits)
  then show ?case using Cons.IH by simp
qed

lemma update_kerr_Inr:
  "update_kerr M a ps = Inr qs \<Longrightarrow>
   list_all2 (\<lambda>p q. update M 0 0 (p\<lparr>hole_spin := a\<rparr>) = Inr q) ps qs"
proof (induction ps arbitrary: qs)
  case Nil
  then show ?case by simp
next
  case (Cons p ps)
  from Cons.prems obtain q qs' where
    "update M 0 0 (p\<lparr>hole_spin := a\<rparr>) = Inr q" "update_kerr M a ps = Inr qs'" "qs = q # qs'"
    by (auto simp: bind_err_def split: sum.splits)
  then show ?case using Cons.IH by simp
qed

lemma frame_Inr:
  assumes "frame st = Inr st'"
  shows "\<exists>ps ks. update_schwarz (mass st) (particles_schwarz (spawn_step st)) = Inr ps \<and>
           update_kerr (mass st) (spin st) (particles_kerr (spawn_step st)) = Inr ks \<and>
           st' = (spawn_step st)\<lparr>particles_schwarz := filter (\<lambda>p. \<not> dead p) ps,
                                  particles_kerr := filter (\<lambda>p. \<not> dead p) ks\<rparr>"
  using assms
  by (auto simp: frame_def Let_def spawn_step_fields(1,2) bind_err_def split: sum.splits)

lemma frame_total:
  assumes "0 < mass st"
  shows "\<exists>st'. frame st = Inr st'"
proof -
  from update_schwarz_total[OF assms] obtain ps where
    "update_schwarz (mass st) (particles_schwarz (spawn_step st)) = Inr ps" by blast
  moreover from update_kerr_total[OF assms] obtain ks where
    "update_kerr (mass st) (spin st) (particles_kerr (spawn_step st)) = Inr ks" by blast
  ultimately show ?thesis
    by (simp add: frame_def Let_def spawn_step_fields(1,2))
qed

lemma pass_resultI:
  assumes M: "0 < M" and u: "update M 0 0 p = Inr q" and q: "q \<in> set qs"
  shows "pass_result M (filter (\<lambda>p. \<not> dead p) qs) p q"
proof -
  from update_fate[OF M, of 0 0 p] u have
    "(dead q \<longleftrightarrow> dead p \<or> (active p \<and> 2 * M \<le> radius p \<and> WIDTH < radius q)) \<and>
     (\<not> active p \<or> radius p < 2 * M \<longrightarrow> \<not> active q \<and> dead q = dead p)"
    by auto
  then show ?thesis using u q unfolding pass_result_def by auto
qed

text \<open>
  Claim C4, amended. With \<open>mass > 0\<close> a frame returns, and for every particle of either
  collection: the per-frame pass removes it from its collection exactly when its \<open>dead\<close>
  flag is set after its update; the flag is set exactly when it was set before or the
  particle was active at \<open>r \<ge> Rs = 2 * mass\<close> and its distance from the centre after the Euler
  step exceeds \<open>WIDTH = 800\<close> (escaped); a particle that crosses inside \<open>Rs\<close>, or that was
  captured before, comes out inactive with its \<open>dead\<close> flag unchanged, so the filter does not
  remove it.
\<close>

theorem removed_exactly_when_dead:
  assumes "0 < mass st"
  shows "\<exists>ps ks st'.
           update_schwarz (mass st) (particles_schwarz (spawn_step st)) = Inr ps \<and>
           update_kerr (mass st) (spin st) (particles_kerr (spawn_step st)) = Inr ks \<and>
           frame st = Inr st' \<and>
           particles_schwarz st' = filter (\<lambda>q. \<not> dead q) ps \<and>
           particles_kerr st' = filter (\<lambda>q. \<not> dead q) ks \<and>
           list_all2 (pass_result (mass st) (particles_schwarz st'))
             (particles_schwarz (spawn_step st)) ps \<and>
           list_all2 (pass_result (mass st) (particles_kerr st'))
             (map (\<lambda>p. p\<lparr>hole_spin := spin st\<rparr>) (particles_kerr (spawn_step st))) ks"
proof -
  from frame_total[OF assms] obtain st' where f: "frame st = Inr st'" by blast
  from frame_Inr[OF f] obtain ps ks where
    ps: "update_schwarz (mass st) (particles_schwarz (spawn_step st)) = Inr ps" and
    ks: "update_kerr (mass st) (spin st) (particles_kerr (spawn_step st)) = Inr ks" and
    st': "st' = (spawn_step st)\<lparr>particles_schwarz := filter (\<lambda>p. \<not> dead p) ps,
                                  particles_kerr := filter (\<lambda>p. \<not> dead p) ks\<rparr>"
    by blast
  have s: "particles_schwarz st' = filter (\<lambda>q. \<not> dead q) ps"
    and k: "particles_kerr st' = filter (\<lambda>q. \<not> dead q) ks"
    by (simp_all add: st')
  have "list_all2 (pass_result (mass st) (filter (\<lambda>q. \<not> dead q) ps))
          (particles_schwarz (spawn_step st)) ps"
    using update_schwarz_Inr[OF ps]
    by (rule list.rel_mono_strong) (rule pass_resultI[OF assms])
  moreover have "list_all2 (pass_result (mass st) (filter (\<lambda>q. \<not> dead q) ks))
          (map (\<lambda>p. p\<lparr>hole_spin := spin st\<rparr>) (particles_kerr (spawn_step st))) ks"
  proof -
    have "list_all2 (\<lambda>p q. update (mass st) 0 0 p = Inr q)
            (map (\<lambda>p. p\<lparr>hole_spin := spin st\<rparr>) (particles_kerr (spawn_step st))) ks"
      using update_kerr_Inr[OF ks] by (simp add: list_all2_map1)
    then show ?thesis
      by (rule list.rel_mono_strong) (rule pass_resultI[OF assms])
  qed
  ultimately show ?thesis using ps ks f s k by auto
qed

theorem removed_exactly_when_dead_witness:
  "0 < mass (SimulationState_init\<lparr>particles_schwarz := [Photon_init 0 100 False 0]\<rparr>) \<and>
   (\<exists>ps ks st'.
      update_schwarz (mass (SimulationState_init\<lparr>particles_schwarz := [Photon_init 0 100 False 0]\<rparr>))
        (particles_schwarz
          (spawn_step (SimulationState_init\<lparr>particles_schwarz := [Photon_init 0 100 False 0]\<rparr>)))
        = Inr ps \<and>
      frame (SimulationState_init\<lparr>particles_schwarz := [Photon_init 0 100 False 0]\<rparr>) = Inr st' \<and>
      particles_schwarz st' = filter (\<lambda>q. \<not> dead q) ps \<and>
      particles_kerr st' = filter (\<lambda>q. \<not> dead q) ks \<and>
      list_all2
        (pass_result (mass (SimulationState_init\<lparr>particles_schwarz := [Photon_init 0 100 False 0]\<rparr>))
          (particles_schwarz st'))
        (particles_schwarz
          (spawn_step (SimulationState_init\<lparr>particles_schwarz := [Photon_init 0 100 False 0]\<rparr>)))
        ps)"
proof -
  have m: "0 < mass (SimulationState_init\<lparr>particles_schwarz := [Photon_init 0 100 False 0]\<rparr>)"
    by (simp add: SimulationState_init_def)
  show ?thesis
    using m removed_exactly_when_dead[OF m] by blast
qed

lemma radius_near: "radius (Photon_init 0 100 False 0) = 50"
proof -
  have "radius (Photon_init 0 100 False 0) = sqrt (50 * 50)"
    by (simp add: radius_def Photon_init_def)
  also have "\<dots> = 50" using real_sqrt_abs2[of 50] by simp
  finally show ?thesis .
qed

text \<open>
  Claim C4 as stated fails: a particle at radius 50, inside \<open>Rs = 60\<close> for the mass 30, is
  marked inactive by the update pass and is still in its collection after the filter of
  that frame.
\<close>

theorem captured_particle_stays_in_collection:
  "frame (SimulationState_init\<lparr>particles_schwarz := [Photon_init 0 100 False 0]\<rparr>) =
     Inr (SimulationState_init
           \<lparr>particles_schwarz := [(Photon_init 0 100 False 0)\<lparr>history := [(- 50, 0)], active := False\<rparr>],
            frame_count := 1\<rparr>) \<and>
   radius (Photon_init 0 100 False 0) < 2 * mass SimulationState_init"
proof -
  have r: "radius (Photon_init 0 100 False 0) < 2 * 30" by (simp add: radius_near)
  have a: "active (Photon_init 0 100 False 0)" by (simp add: Photon_init_def)
  have u: "update 30 0 0 (Photon_init 0 100 False 0) =
      Inr ((Photon_init 0 100 False 0)\<lparr>history := [(- 50, 0)], active := False\<rparr>)"
    using update_captured[OF a r, of 0 0]
    by (simp add: appended_def world_position_def Photon_init_def TRAIL_LENGTH_def)
  have d: "\<not> dead (Photon_init 0 100 False 0)" by (simp add: Photon_init_def)
  show ?thesis
    using r d by (simp add: frame_def spawn_step_def Let_def SimulationState_init_def
        SPAWN_RATE_def u)
qed

section \<open>Captured particles stay in their collection (C9)\<close>

lemma list_all2_member:
  assumes "list_all2 R xs ys" and "x \<in> set xs"
  shows "\<exists>y \<in> set ys. R x y"
  using assms by (induction rule: list_all2_induct) auto

lemma inactive_stays_schwarz:
  assumes "update_schwarz M ps = Inr qs" and "p \<in> set ps" and "\<not> active p"
  shows "p \<in> set qs"
proof -
  from list_all2_member[OF update_schwarz_Inr[OF assms(1)] assms(2)]
  obtain q where "q \<in> set qs" "update M 0 0 p = Inr q" by blast
  then show ?thesis using assms(3) by (simp add: update_inactive)
qed

lemma inactive_stays_kerr:
  assumes "update_kerr M a ps = Inr qs" and "p \<in> set ps" and "\<not> active p"
  shows "p\<lparr>hole_spin := a\<rparr> \<in> set qs"
proof -
  from list_all2_member[OF update_kerr_Inr[OF assms(1)] assms(2)]
  obtain q where "q \<in> set qs" "update M 0 0 (p\<lparr>hole_spin := a\<rparr>) = Inr q" by blast
  then show ?thesis using assms(3) by (simp add: update_inactive)
qed

lemma frame_keeps:
  assumes f: "frame st = Inr st'" and na: "\<not> active p" and nd: "\<not> dead p"
  shows "(p \<in> set (particles_schwarz st) \<longrightarrow> p \<in> set (particles_schwarz st')) \<and>
         (p \<in> set (particles_kerr st) \<longrightarrow> p\<lparr>hole_spin := spin st\<rparr> \<in> set (particles_kerr st'))"
proof -
  from frame_Inr[OF f] obtain ps ks where
    ps: "update_schwarz (mass st) (particles_schwarz (spawn_step st)) = Inr ps" and
    ks: "update_kerr (mass st) (spin st) (particles_kerr (spawn_step st)) = Inr ks" and
    st': "st' = (spawn_step st)\<lparr>particles_schwarz := filter (\<lambda>p. \<not> dead p) ps,
                                  particles_kerr := filter (\<lambda>p. \<not> dead p) ks\<rparr>"
    by blast
  from spawn_step_fields(4)[of st] obtain ns where
    ns: "particles_schwarz (spawn_step st) = particles_schwarz st @ ns" by blast
  from spawn_step_fields(5)[of st] obtain nk where
    nk: "particles_kerr (spawn_step st) = particles_kerr st @ nk" by blast
  have "p \<in> set (particles_schwarz st')" if "p \<in> set (particles_schwarz st)"
  proof -
    from that have "p \<in> set (particles_schwarz (spawn_step st))" by (simp add: ns)
    from inactive_stays_schwarz[OF ps this na] show ?thesis using nd by (simp add: st')
  qed
  moreover have "p\<lparr>hole_spin := spin st\<rparr> \<in> set (particles_kerr st')"
    if "p \<in> set (particles_kerr st)"
  proof -
    from that have "p \<in> set (particles_kerr (spawn_step st))" by (simp add: nk)
    from inactive_stays_kerr[OF ks this na] show ?thesis using nd by (simp add: st')
  qed
  ultimately show ?thesis by blast
qed

lemma run_frames_keeps_schwarz:
  assumes "run_frames mas st = Inr st'" and "\<not> active p" and "\<not> dead p"
    and "p \<in> set (particles_schwarz st)"
  shows "p \<in> set (particles_schwarz st')"
  using assms
proof (induction mas arbitrary: st)
  case Nil
  then show ?case by simp
next
  case (Cons ma mas)
  from Cons.prems(1) obtain st1 where
    f: "frame (st\<lparr>mass := fst ma, spin := snd ma\<rparr>) = Inr st1" and r: "run_frames mas st1 = Inr st'"
    by (auto simp: bind_err_def split: sum.splits)
  have "p \<in> set (particles_schwarz st1)"
    using frame_keeps[OF f Cons.prems(2,3)] Cons.prems(4) by simp
  from Cons.IH[OF r Cons.prems(2,3) this] show ?case .
qed

lemma run_frames_keeps_kerr:
  assumes "run_frames mas st = Inr st'" and "\<not> active p" and "\<not> dead p"
    and "p \<in> set (particles_kerr st)"
  shows "p\<lparr>hole_spin := (if mas = [] then hole_spin p else snd (last mas))\<rparr>
           \<in> set (particles_kerr st')"
  using assms
proof (induction mas arbitrary: st p)
  case Nil
  then show ?case by simp
next
  case (Cons ma mas)
  from Cons.prems(1) obtain st1 where
    f: "frame (st\<lparr>mass := fst ma, spin := snd ma\<rparr>) = Inr st1" and r: "run_frames mas st1 = Inr st'"
    by (auto simp: bind_err_def split: sum.splits)
  let ?p1 = "p\<lparr>hole_spin := snd ma\<rparr>"
  have m: "?p1 \<in> set (particles_kerr st1)"
    using frame_keeps[OF f Cons.prems(2,3)] Cons.prems(4) by simp
  have "\<not> active ?p1" "\<not> dead ?p1" using Cons.prems(2,3) by simp_all
  from Cons.IH[OF r this m] have ih:
    "?p1\<lparr>hole_spin := (if mas = [] then hole_spin ?p1 else snd (last mas))\<rparr>
       \<in> set (particles_kerr st')" .
  show ?case
  proof (cases "mas = []")
    case True
    with ih show ?thesis by simp
  next
    case False
    with ih show ?thesis by simp
  qed
qed

lemma run_frames_total:
  assumes "\<forall>ma \<in> set mas. 0 < fst ma"
  shows "\<exists>st'. run_frames mas st = Inr st'"
  using assms
proof (induction mas arbitrary: st)
  case Nil
  show ?case by simp
next
  case (Cons ma mas)
  have "0 < mass (st\<lparr>mass := fst ma, spin := snd ma\<rparr>)" using Cons.prems by simp
  from frame_total[OF this] obtain st1 where
    f: "frame (st\<lparr>mass := fst ma, spin := snd ma\<rparr>) = Inr st1" by blast
  from Cons.IH[of st1] Cons.prems obtain st' where "run_frames mas st1 = Inr st'" by auto
  then show ?case using f by simp
qed

lemma subseq_kept:
  assumes "list_all2 U xs ys" and "\<And>x y. U x y \<Longrightarrow> \<not> active x \<Longrightarrow> \<not> dead x \<Longrightarrow> y = f x"
    and "\<And>x. \<not> dead x \<Longrightarrow> \<not> dead (f x)"
  shows "subseq (map f (filter (\<lambda>q. \<not> active q \<and> \<not> dead q) xs)) (filter (\<lambda>q. \<not> dead q) ys)"
  using assms(1)
proof (induction rule: list_all2_induct)
  case Nil
  show ?case by simp
next
  case (Cons x xs y ys)
  show ?case
  proof (cases "\<not> active x \<and> \<not> dead x")
    case True
    then have "y = f x" using Cons.hyps(1) assms(2) by blast
    moreover have "\<not> dead (f x)" using True assms(3) by blast
    ultimately show ?thesis using True Cons.IH by simp
  next
    case False
    then show ?thesis using Cons.IH by auto
  qed
qed

lemma frame_keeps_all:
  assumes f: "frame st = Inr st'"
  shows "subseq (filter (\<lambda>q. \<not> active q \<and> \<not> dead q) (particles_schwarz st))
           (particles_schwarz st') \<and>
         subseq (map (\<lambda>p. p\<lparr>hole_spin := spin st\<rparr>)
                   (filter (\<lambda>q. \<not> active q \<and> \<not> dead q) (particles_kerr st)))
           (particles_kerr st')"
proof -
  let ?C = "\<lambda>q. \<not> active q \<and> \<not> dead q"
  from frame_Inr[OF f] obtain ps ks where
    ps: "update_schwarz (mass st) (particles_schwarz (spawn_step st)) = Inr ps" and
    ks: "update_kerr (mass st) (spin st) (particles_kerr (spawn_step st)) = Inr ks" and
    st': "st' = (spawn_step st)\<lparr>particles_schwarz := filter (\<lambda>p. \<not> dead p) ps,
                                  particles_kerr := filter (\<lambda>p. \<not> dead p) ks\<rparr>"
    by blast
  from spawn_step_fields(4)[of st] obtain ns where
    ns: "particles_schwarz (spawn_step st) = particles_schwarz st @ ns" by blast
  from spawn_step_fields(5)[of st] obtain nk where
    nk: "particles_kerr (spawn_step st) = particles_kerr st @ nk" by blast
  have "subseq (map (\<lambda>p. p) (filter ?C (particles_schwarz (spawn_step st))))
              (filter (\<lambda>q. \<not> dead q) ps)"
    using update_schwarz_Inr[OF ps]
    by (rule subseq_kept) (simp_all add: update_inactive)
  then have s1: "subseq (filter ?C (particles_schwarz (spawn_step st)))
              (filter (\<lambda>q. \<not> dead q) ps)" by simp
  have s0: "subseq (filter ?C (particles_schwarz st))
              (filter ?C (particles_schwarz (spawn_step st)))"
    by (simp add: ns prefix_imp_subseq)
  have a: "subseq (filter ?C (particles_schwarz st)) (particles_schwarz st')"
    using subseq_order.order_trans[OF s0 s1] by (simp add: st')
  have k1: "subseq (map (\<lambda>p. p\<lparr>hole_spin := spin st\<rparr>)
                     (filter ?C (particles_kerr (spawn_step st))))
              (filter (\<lambda>q. \<not> dead q) ks)"
    using update_kerr_Inr[OF ks]
    by (rule subseq_kept) (simp_all add: update_inactive)
  have k0: "subseq (map (\<lambda>p. p\<lparr>hole_spin := spin st\<rparr>) (filter ?C (particles_kerr st)))
          (map (\<lambda>p. p\<lparr>hole_spin := spin st\<rparr>) (filter ?C (particles_kerr (spawn_step st))))"
    by (simp add: nk prefix_imp_subseq)
  have b: "subseq (map (\<lambda>p. p\<lparr>hole_spin := spin st\<rparr>) (filter ?C (particles_kerr st)))
          (particles_kerr st')"
    using subseq_order.order_trans[OF k0 k1] by (simp add: st')
  from a b show ?thesis by blast
qed

lemma run_frames_keeps_all:
  assumes "run_frames mas st = Inr st'"
  shows "subseq (filter (\<lambda>q. \<not> active q \<and> \<not> dead q) (particles_schwarz st))
           (particles_schwarz st') \<and>
         subseq (map (\<lambda>q. q\<lparr>hole_spin := (if mas = [] then hole_spin q else snd (last mas))\<rparr>)
                   (filter (\<lambda>q. \<not> active q \<and> \<not> dead q) (particles_kerr st)))
           (particles_kerr st')"
  using assms
proof (induction mas arbitrary: st)
  case Nil
  then show ?case by simp
next
  case (Cons ma mas)
  let ?C = "\<lambda>q::Photon. \<not> active q \<and> \<not> dead q"
  let ?g = "\<lambda>q::Photon. q\<lparr>hole_spin := (if mas = [] then hole_spin q else snd (last mas))\<rparr>"
  let ?h = "\<lambda>q::Photon. q\<lparr>hole_spin := snd (last (ma # mas))\<rparr>"
  let ?a = "\<lambda>q::Photon. q\<lparr>hole_spin := snd ma\<rparr>"
  from Cons.prems obtain st1 where
    f: "frame (st\<lparr>mass := fst ma, spin := snd ma\<rparr>) = Inr st1" and r: "run_frames mas st1 = Inr st'"
    by (auto simp: bind_err_def split: sum.splits)
  from frame_keeps_all[OF f] have
    s1: "subseq (filter ?C (particles_schwarz st)) (particles_schwarz st1)" and
    k1: "subseq (map ?a (filter ?C (particles_kerr st))) (particles_kerr st1)"
    by simp_all
  from Cons.IH[OF r] have
    s2: "subseq (filter ?C (particles_schwarz st1)) (particles_schwarz st')" and
    k2: "subseq (map ?g (filter ?C (particles_kerr st1))) (particles_kerr st')"
    by simp_all
  have "subseq (filter ?C (filter ?C (particles_schwarz st))) (filter ?C (particles_schwarz st1))"
    using s1 by (rule subseq_filter)
  then have "subseq (filter ?C (particles_schwarz st)) (filter ?C (particles_schwarz st1))"
    by simp
  then have a: "subseq (filter ?C (particles_schwarz st)) (particles_schwarz st')"
    using s2 by (rule subseq_order.order_trans)
  have "subseq (filter ?C (map ?a (filter ?C (particles_kerr st))))
          (filter ?C (particles_kerr st1))"
    using k1 by (rule subseq_filter)
  moreover have "filter ?C (map ?a (filter ?C (particles_kerr st))) =
      map ?a (filter ?C (particles_kerr st))"
    by (simp add: filter_map o_def)
  ultimately have "subseq (map ?a (filter ?C (particles_kerr st))) (filter ?C (particles_kerr st1))"
    by simp
  then have "subseq (map ?g (map ?a (filter ?C (particles_kerr st))))
               (map ?g (filter ?C (particles_kerr st1)))"
    by (rule subseq_map)
  then have gk: "subseq (map ?g (map ?a (filter ?C (particles_kerr st)))) (particles_kerr st')"
    using k2 by (rule subseq_order.order_trans)
  have e: "?g (?a q) = ?h q" for q
  proof (cases "mas = []")
    case True
    then show ?thesis by simp
  next
    case False
    then show ?thesis by simp
  qed
  have m: "map ?g (map ?a xs) = map ?h xs" for xs :: "Photon list"
    by (induction xs) (simp_all only: list.map e)
  have b: "subseq (map ?h (filter ?C (particles_kerr st))) (particles_kerr st')"
    using gk unfolding m .
  have hh: "(\<lambda>q::Photon. q\<lparr>hole_spin :=
               (if ma # mas = [] then hole_spin q else snd (last (ma # mas)))\<rparr>) = ?h"
    by (simp only: list.distinct if_False)
  show ?case unfolding hh by (rule conjI[OF a b])
qed

text \<open>
  Claim C9. A particle that is captured (\<open>active\<close> false) with its \<open>dead\<close> flag not set
  is returned unchanged by every later call of \<open>update\<close>, so the flag never becomes true.
  Since the per-frame filter removes only dead particles, over any run of frames (the
  spawning, the update passes and the filters of lines 208 to 231, with whatever masses and
  spins the frames read) no captured particle is removed: the captured particles of each
  collection, every one of them as often as it occurs and in their order, are a
  subsequence of the collection after the run, unchanged in the Schwarzschild collection
  and in the Kerr collection with nothing changed but the \<open>hole_spin\<close> that the Kerr loop
  assigns. With positive masses the run does return. Meanwhile every frame whose counter
  is a multiple of \<open>SPAWN_RATE\<close> adds 21 particles to each collection.
\<close>

theorem captured_particle_is_never_removed:
  assumes "\<not> active p" and "\<not> dead p"
  shows "(\<forall>M cx cy. update M cx cy p = Inr p) \<and>
         (\<forall>st'. run_frames mas st = Inr st' \<longrightarrow>
            subseq (filter (\<lambda>q. \<not> active q \<and> \<not> dead q) (particles_schwarz st))
              (particles_schwarz st') \<and>
            subseq (map (\<lambda>q. q\<lparr>hole_spin := (if mas = [] then hole_spin q else snd (last mas))\<rparr>)
                      (filter (\<lambda>q. \<not> active q \<and> \<not> dead q) (particles_kerr st)))
              (particles_kerr st') \<and>
            (p \<in> set (particles_schwarz st) \<longrightarrow> p \<in> set (particles_schwarz st')) \<and>
            (p \<in> set (particles_kerr st) \<longrightarrow>
               p\<lparr>hole_spin := (if mas = [] then hole_spin p else snd (last mas))\<rparr>
                 \<in> set (particles_kerr st'))) \<and>
         ((\<forall>ma \<in> set mas. 0 < fst ma) \<longrightarrow> (\<exists>st'. run_frames mas st = Inr st')) \<and>
         (\<forall>s. length (particles_schwarz (spawn_step s)) =
                length (particles_schwarz s) +
                (if (frame_count s + 1) mod SPAWN_RATE = 0 then 21 else 0) \<and>
              length (particles_kerr (spawn_step s)) =
                length (particles_kerr s) +
                (if (frame_count s + 1) mod SPAWN_RATE = 0 then 21 else 0))"
proof -
  have a: "\<forall>M cx cy. update M cx cy p = Inr p"
    using assms(1) by (simp add: update_inactive)
  have b: "\<forall>st'. run_frames mas st = Inr st' \<longrightarrow>
            subseq (filter (\<lambda>q. \<not> active q \<and> \<not> dead q) (particles_schwarz st))
              (particles_schwarz st') \<and>
            subseq (map (\<lambda>q. q\<lparr>hole_spin := (if mas = [] then hole_spin q else snd (last mas))\<rparr>)
                      (filter (\<lambda>q. \<not> active q \<and> \<not> dead q) (particles_kerr st)))
              (particles_kerr st') \<and>
            (p \<in> set (particles_schwarz st) \<longrightarrow> p \<in> set (particles_schwarz st')) \<and>
            (p \<in> set (particles_kerr st) \<longrightarrow>
               p\<lparr>hole_spin := (if mas = [] then hole_spin p else snd (last mas))\<rparr>
                 \<in> set (particles_kerr st'))"
    using run_frames_keeps_all[of mas st]
      run_frames_keeps_schwarz[OF _ assms, of mas st]
      run_frames_keeps_kerr[OF _ assms, of mas st] by blast
  have c: "(\<forall>ma \<in> set mas. 0 < fst ma) \<longrightarrow> (\<exists>st'. run_frames mas st = Inr st')"
    using run_frames_total[of mas st] by blast
  have d: "length (particles_schwarz (spawn_step s)) =
                length (particles_schwarz s) +
                (if (frame_count s + 1) mod SPAWN_RATE = 0 then 21 else 0) \<and>
              length (particles_kerr (spawn_step s)) =
                length (particles_kerr s) +
                (if (frame_count s + 1) mod SPAWN_RATE = 0 then 21 else 0)" for s
  proof -
    from spawn_step_fields(4)[of s] obtain ns where
      "particles_schwarz (spawn_step s) = particles_schwarz s @ ns"
      "length ns = (if (frame_count s + 1) mod SPAWN_RATE = 0 then 21 else 0)" by blast
    moreover from spawn_step_fields(5)[of s] obtain nk where
      "particles_kerr (spawn_step s) = particles_kerr s @ nk"
      "length nk = (if (frame_count s + 1) mod SPAWN_RATE = 0 then 21 else 0)" by blast
    ultimately show ?thesis by simp
  qed
  from a b c d show ?thesis by blast
qed

theorem captured_particle_is_never_removed_witness:
  "\<not> active ((Photon_init 0 100 False 0)\<lparr>history := [(- 50, 0)], active := False\<rparr>) \<and>
   \<not> dead ((Photon_init 0 100 False 0)\<lparr>history := [(- 50, 0)], active := False\<rparr>) \<and>
   (0::real) < fst (30::real, 9 / 10 :: real) \<and>
   (\<exists>st'. run_frames [(30, 9 / 10)]
            (SimulationState_init\<lparr>particles_schwarz :=
               [(Photon_init 0 100 False 0)\<lparr>history := [(- 50, 0)], active := False\<rparr>,
                (Photon_init 0 100 False 0)\<lparr>history := [(- 50, 0)], active := False\<rparr>]\<rparr>) = Inr st' \<and>
          subseq [(Photon_init 0 100 False 0)\<lparr>history := [(- 50, 0)], active := False\<rparr>,
                  (Photon_init 0 100 False 0)\<lparr>history := [(- 50, 0)], active := False\<rparr>]
            (particles_schwarz st') \<and>
          (Photon_init 0 100 False 0)\<lparr>history := [(- 50, 0)], active := False\<rparr>
            \<in> set (particles_schwarz st'))"
proof -
  let ?p = "(Photon_init 0 100 False 0)\<lparr>history := [(- 50, 0)], active := False\<rparr>"
  let ?st = "SimulationState_init\<lparr>particles_schwarz := [?p, ?p]\<rparr>"
  have a: "\<not> active ?p" by simp
  have d: "\<not> dead ?p" by (simp add: Photon_init_def)
  have m: "\<forall>ma \<in> set [(30, 9 / 10)]. (0::real) < fst ma" by simp
  have i: "?p \<in> set (particles_schwarz ?st)" by simp
  have f: "filter (\<lambda>q. \<not> active q \<and> \<not> dead q) (particles_schwarz ?st) = [?p, ?p]"
    using d by simp
  from captured_particle_is_never_removed[OF a d, of "[(30, 9 / 10)]" ?st] m i
  have "\<exists>st'. run_frames [(30, 9 / 10)] ?st = Inr st' \<and>
          subseq (filter (\<lambda>q. \<not> active q \<and> \<not> dead q) (particles_schwarz ?st))
            (particles_schwarz st') \<and> ?p \<in> set (particles_schwarz st')"
    by blast
  then have "\<exists>st'. run_frames [(30, 9 / 10)] ?st = Inr st' \<and>
          subseq [?p, ?p] (particles_schwarz st') \<and> ?p \<in> set (particles_schwarz st')"
    unfolding f .
  moreover have "(0::real) < fst (30::real, 9 / 10 :: real)" by simp
  ultimately show ?thesis using a d by blast
qed

section \<open>The history is a bounded queue (C6)\<close>

lemma appended_assign_spin [simp]: "appended cx cy (assign_spin a p) = appended cx cy p"
  by (simp add: appended_def world_position_def)

lemma appended_length:
  "length (history p) \<le> TRAIL_LENGTH \<Longrightarrow> length (appended cx cy p) \<le> TRAIL_LENGTH"
  by (simp add: appended_def Let_def)

lemma appended_fifo:
  assumes "length (history p) \<le> TRAIL_LENGTH"
  shows "appended cx cy p =
         (if length (history p) < TRAIL_LENGTH then history p else tl (history p))
           @ [world_position cx cy p]"
proof (cases "history p")
  case Nil
  then show ?thesis by (simp add: appended_def TRAIL_LENGTH_def)
next
  case (Cons h hs)
  then show ?thesis using assms by (auto simp add: appended_def Let_def)
qed

lemma call_update_history:
  assumes "call_update c p = Inr q"
  shows "history q = (if active p then appended (fst (snd (snd c))) (snd (snd (snd c))) p
                      else history p)"
proof -
  obtain a m cx cy where c: "c = (a, m, cx, cy)" by (cases c) auto
  show ?thesis
  proof (cases "active p")
    case True
    then have "active (assign_spin a p)" by simp
    from update_history[OF this] assms show ?thesis using True by (simp add: call_update_def c)
  next
    case False
    then show ?thesis using assms by (auto simp add: call_update_def c update_inactive)
  qed
qed

lemma call_update_active:
  assumes "call_update c p = Inr q" and "active q"
  shows "active p"
proof (rule ccontr)
  assume "\<not> active p"
  obtain a m cx cy where c: "c = (a, m, cx, cy)" by (cases c) auto
  from \<open>\<not> active p\<close> have "call_update c p = Inr (assign_spin a p)"
    by (simp add: call_update_def c update_inactive)
  with assms \<open>\<not> active p\<close> show False by auto
qed

lemma drive_active:
  assumes "drive cs q = Inr p" and "active p"
  shows "active q"
proof (rule ccontr)
  assume "\<not> active q"
  from drive_inactive[OF this, of cs] assms(1) obtain s where "p = q\<lparr>hole_spin := s\<rparr>" by auto
  with assms(2) \<open>\<not> active q\<close> show False by simp
qed

lemma drive_Cons_Inr:
  assumes "drive (c # cs) p0 = Inr p"
  obtains p1 where "call_update c p0 = Inr p1" and "drive cs p1 = Inr p"
  using assms by (auto simp: bind_err_def split: sum.splits)

lemma drive_history_length:
  assumes "drive cs p0 = Inr p" and "length (history p0) \<le> TRAIL_LENGTH"
  shows "length (history p) \<le> TRAIL_LENGTH"
  using assms
proof (induction cs arbitrary: p0)
  case Nil
  then show ?case by simp
next
  case (Cons c cs)
  from Cons.prems(1) obtain p1 where
    p1: "call_update c p0 = Inr p1" and r: "drive cs p1 = Inr p" by (rule drive_Cons_Inr)
  have "length (history p1) \<le> TRAIL_LENGTH"
    using call_update_history[OF p1] Cons.prems(2) by (simp add: appended_length)
  from Cons.IH[OF r this] show ?case .
qed

lemma recorded_length:
  assumes "drive cs p0 = Inr p"
  shows "length (recorded cs p0) = length cs"
  using assms
proof (induction cs arbitrary: p0)
  case Nil
  then show ?case by simp
next
  case (Cons c cs)
  from Cons.prems(1) obtain p1 where
    p1: "call_update c p0 = Inr p1" and r: "drive cs p1 = Inr p" by (rule drive_Cons_Inr)
  from Cons.IH[OF r] show ?case by (simp add: p1)
qed

lemma drive_history:
  assumes "drive cs p0 = Inr p" and "active p" and "length (history p0) \<le> TRAIL_LENGTH"
  shows "history p =
         drop (length (history p0) + length cs - TRAIL_LENGTH) (history p0 @ recorded cs p0)"
  using assms
proof (induction cs arbitrary: p0)
  case Nil
  then show ?case by simp
next
  case (Cons c cs)
  obtain a m cx cy where c: "c = (a, m, cx, cy)" by (cases c) auto
  from Cons.prems(1) obtain p1 where
    p1: "call_update c p0 = Inr p1" and r: "drive cs p1 = Inr p" by (rule drive_Cons_Inr)
  have a1: "active p1" using r Cons.prems(2) by (rule drive_active)
  have a0: "active p0" using p1 a1 by (rule call_update_active)
  let ?w = "world_position cx cy p0"
  have h1: "history p1 = (if length (history p0) < TRAIL_LENGTH then history p0
                          else tl (history p0)) @ [?w]"
    using call_update_history[OF p1] a0 appended_fifo[OF Cons.prems(3), of cx cy] by (simp add: c)
  have l1: "length (history p1) \<le> TRAIL_LENGTH"
    using call_update_history[OF p1] Cons.prems(3) by (simp add: appended_length)
  have rec: "recorded (c # cs) p0 = ?w # recorded cs p1" using p1 by (simp add: c)
  have ih: "history p =
         drop (length (history p1) + length cs - TRAIL_LENGTH) (history p1 @ recorded cs p1)"
    using Cons.IH[OF r Cons.prems(2) l1] .
  show ?case
  proof (cases "length (history p0) < TRAIL_LENGTH")
    case True
    then have "history p1 = history p0 @ [?w]" using h1 by simp
    then show ?thesis using ih unfolding rec by simp
  next
    case False
    then have len: "length (history p0) = TRAIL_LENGTH" using Cons.prems(3) by simp
    then have ne: "history p0 \<noteq> []" by (auto simp: TRAIL_LENGTH_def)
    have t: "history p1 = tl (history p0) @ [?w]" using h1 False by simp
    have l: "length (history p1) = TRAIL_LENGTH" using t len ne by (simp add: TRAIL_LENGTH_def)
    have "history p1 @ recorded cs p1 = drop 1 (history p0 @ ?w # recorded cs p1)"
      using t ne by (cases "history p0") simp_all
    then have "history p = drop (length cs) (drop 1 (history p0 @ ?w # recorded cs p1))"
      using ih l by simp
    then have e: "history p = drop (length cs + 1) (history p0 @ ?w # recorded cs p1)"
      by (simp only: drop_drop)
    have idx: "length (history p0) + length (c # cs) - TRAIL_LENGTH = length cs + 1"
      using len by simp
    show ?thesis unfolding rec idx by (rule e)
  qed
qed

text \<open>
  Claim C6. For a particle whose history is within the cap \<open>TRAIL_LENGTH = 100\<close> (as it is
  after \<open>__init__\<close>, where it is empty), after any sequence of calls of \<open>update\<close> the length
  of the history does not exceed the cap. Eviction is first in, first out: a call on an
  active particle appends the current world position at the end and, when the list was
  full, drops its first (oldest) entry. And when the particle is still active after
  strictly more calls than the cap, the history has exactly \<open>TRAIL_LENGTH\<close> entries: the
  world positions at the start of the last \<open>TRAIL_LENGTH\<close> calls, oldest first.
\<close>

theorem history_is_bounded_fifo:
  assumes "length (history p0) \<le> TRAIL_LENGTH" and "drive cs p0 = Inr p"
  shows "length (history p) \<le> TRAIL_LENGTH \<and>
         (\<forall>M cx cy q. active p0 \<and> update M cx cy p0 = Inr q \<longrightarrow>
            history q = (if length (history p0) < TRAIL_LENGTH then history p0
                         else tl (history p0)) @ [(x_raw p0 + cx, y_raw p0 + cy)]) \<and>
         (active p \<and> TRAIL_LENGTH < length cs \<longrightarrow>
            length (history p) = TRAIL_LENGTH \<and>
            history p = drop (length cs - TRAIL_LENGTH) (recorded cs p0))"
proof -
  have a: "length (history p) \<le> TRAIL_LENGTH"
    using assms(2,1) by (rule drive_history_length)
  have b: "history q = (if length (history p0) < TRAIL_LENGTH then history p0
                         else tl (history p0)) @ [(x_raw p0 + cx, y_raw p0 + cy)]"
    if "active p0" "update M cx cy p0 = Inr q" for M cx cy q
    using update_history[OF that] appended_fifo[OF assms(1), of cx cy]
    by (simp add: world_position_def)
  have c: "length (history p) = TRAIL_LENGTH \<and>
            history p = drop (length cs - TRAIL_LENGTH) (recorded cs p0)"
    if "active p" "TRAIL_LENGTH < length cs"
  proof -
    have h: "history p =
         drop (length (history p0) + length cs - TRAIL_LENGTH) (history p0 @ recorded cs p0)"
      using assms(2) that(1) assms(1) by (rule drive_history)
    have n: "length (recorded cs p0) = length cs" using assms(2) by (rule recorded_length)
    have e: "length (history p0) + length cs - TRAIL_LENGTH =
             length (history p0) + (length cs - TRAIL_LENGTH)" using that(2) by simp
    have "history p = drop (length cs - TRAIL_LENGTH) (recorded cs p0)"
      unfolding h e by simp
    moreover from this have "length (history p) = TRAIL_LENGTH" using n that(2) by simp
    ultimately show ?thesis by simp
  qed
  from a b c show ?thesis by blast
qed

text \<open>A particle at rest at \<open>(1, 0)\<close> under mass 0 stays where it is and stays active.\<close>

lemma resting_update:
  "update 0 0 0 \<lparr>pos = (0, 0), x_raw = 1, y_raw = 0, vel = (0, 0), history = h,
                   active = True, is_kerr = False, hole_spin = 0, dead = False\<rparr> =
   Inr \<lparr>pos = (0, 0), x_raw = 1, y_raw = 0, vel = (0, 0),
        history = (if length (h @ [(1, 0)]) > TRAIL_LENGTH then tl (h @ [(1, 0)]) else h @ [(1, 0)]),
        active = True, is_kerr = False, hole_spin = 0, dead = False\<rparr>"
proof -
  let ?p = "\<lparr>pos = (0, 0), x_raw = 1, y_raw = 0, vel = (0, 0), history = h,
             active = True, is_kerr = False, hole_spin = 0, dead = False\<rparr>"
  have r: "radius ?p = 1" by (simp add: radius_def)
  have e: "spec_euler_step 0 ?p = ((0, 0), (1, 0))"
    by (simp add: spec_euler_step_def spec_acceleration_def Let_def)
  have m: "moved 0 0 0 ?p = ?p\<lparr>history := appended 0 0 ?p\<rparr>"
    by (simp add: moved_def e)
  have "update 0 0 0 ?p = Inr (moved 0 0 0 ?p)"
    using update_moved[of ?p 0 0 0] by (simp add: r m radius_def WIDTH_def)
  then show ?thesis by (simp add: m appended_def world_position_def Let_def)
qed

lemma resting_drive:
  "\<exists>p. drive (replicate n (None, 0, 0, 0))
          \<lparr>pos = (0, 0), x_raw = 1, y_raw = 0, vel = (0, 0), history = h,
           active = True, is_kerr = False, hole_spin = 0, dead = False\<rparr> = Inr p \<and> active p"
proof (induction n arbitrary: h)
  case 0
  show ?case by simp
next
  case (Suc n)
  show ?case
    using Suc.IH by (simp add: call_update_def assign_spin_def resting_update)
qed

theorem history_is_bounded_fifo_witness:
  "length (history \<lparr>pos = (0, 0), x_raw = 1, y_raw = 0, vel = (0, 0), history = [],
                    active = True, is_kerr = False, hole_spin = 0, dead = False\<rparr>) \<le> TRAIL_LENGTH \<and>
   (\<exists>p. drive (replicate 101 (None, 0, 0, 0))
          \<lparr>pos = (0, 0), x_raw = 1, y_raw = 0, vel = (0, 0), history = [],
           active = True, is_kerr = False, hole_spin = 0, dead = False\<rparr> = Inr p \<and>
        active p \<and> length (history p) = TRAIL_LENGTH \<and>
        history p = drop (101 - TRAIL_LENGTH)
          (recorded (replicate 101 (None, 0, 0, 0))
             \<lparr>pos = (0, 0), x_raw = 1, y_raw = 0, vel = (0, 0), history = [],
              active = True, is_kerr = False, hole_spin = 0, dead = False\<rparr>))"
proof -
  let ?p0 = "\<lparr>pos = (0, 0), x_raw = 1, y_raw = 0, vel = (0, 0), history = [],
              active = True, is_kerr = False, hole_spin = 0, dead = False\<rparr>"
  have l: "length (history ?p0) \<le> TRAIL_LENGTH" by simp
  from resting_drive[of 101 "[]"] obtain p where
    d: "drive (replicate 101 (None, 0, 0, 0)) ?p0 = Inr p" and a: "active p" by blast
  have n: "TRAIL_LENGTH < 101" by (simp add: TRAIL_LENGTH_def)
  from history_is_bounded_fifo[OF l d, unfolded length_replicate] a n have
    "length (history p) = TRAIL_LENGTH \<and>
     history p = drop (101 - TRAIL_LENGTH) (recorded (replicate 101 (None, 0, 0, 0)) ?p0)"
    by blast
  with l d a show ?thesis by blast
qed

end
